theory Spec2Isabelle
  imports Complex_Main "HOL-Library.AList" "HOL-Library.Word"
begin

section \<open>The slicing server (\<^verbatim>\<open>server.js\<close>) as HOL functions\<close>

text \<open>
  The server keeps one in-memory cache of downloaded images, sweeps it on a timer and
  answers \<^verbatim>\<open>GET /slice?url=..&index=..\<close>. The embedding follows the source line by line.
  One request, and one sweep, runs as one atomic step (the interleaving of concurrent
  requests at the \<^verbatim>\<open>await\<close> points is outside the model). The libraries the handler
  calls (\<^verbatim>\<open>node-fetch\<close>, \<^verbatim>\<open>sharp\<close>) and the clock are parameters, collected in the record
  \<open>env\<close>; every call of a library is written to a trace, so that "the fetch is
  invoked" is a statement about the trace.
\<close>

subsection \<open>JavaScript values\<close>

text \<open>
  Strings are byte strings: the UTF-8 encoding of the JavaScript string. A buffer is a
  list of bytes.

  The numbers of the handler are integers, \<open>NaN\<close> and the two infinities. A number is
  one of: \<open>NaN\<close>; \<open>Num i\<close>, the integer \<open>i\<close>, where \<open>Num 0\<close> is \<open>+0\<close>; \<open>NegZero\<close>, which is
  \<open>-0\<close>; \<open>PosInf\<close> and \<open>NegInf\<close>. Every integer that the handler computes goes through
  \<open>to_number\<close>, which rounds it to the nearest double (ties to the even significand,
  overflow to an infinity), so that only integers that a double holds occur as \<open>Num i\<close>;
  the width and the height that the codec reports are taken as it gives them.
\<close>

type_synonym bytes = "8 word list"

datatype jsnum = NaN | Num int | NegZero | PosInf | NegInf

text \<open>The number of binary digits of a positive integer.\<close>

function bit_length :: "int \<Rightarrow> nat" where
  "bit_length n = (if n \<le> 0 then 0 else Suc (bit_length (n div 2)))"
  by pat_completeness auto
termination
  by (relation "measure nat") auto

declare bit_length.simps [simp del]

text \<open>
  The double nearest to a non-zero integer \<open>n\<close>. Below \<open>2^53\<close> every integer is a double.
  From there on a double has a significand \<open>q\<close> of 53 binary digits and an exponent
  \<open>e\<close>: the remainder \<open>r\<close> below \<open>2^e\<close> is rounded away, up when it is more than half of
  \<open>2^e\<close>, or exactly half and \<open>q\<close> is odd. A result of \<open>2^1024\<close> or more is an infinity.
\<close>

definition to_number :: "int \<Rightarrow> jsnum" where
  "to_number n =
     (let m = \<bar>n\<bar> in
      if m < 2 ^ 53 then Num n
      else
        (let e = bit_length m - 53;
             q = m div 2 ^ e;
             r = m mod 2 ^ e;
             half = 2 ^ (e - 1);
             q' = (if half < r \<or> (r = half \<and> odd q) then q + 1 else q);
             v = q' * 2 ^ e
         in if 2 ^ 1024 \<le> v then (if n < 0 then NegInf else PosInf)
            else Num (if n < 0 then - v else v)))"

fun negative :: "jsnum \<Rightarrow> bool" where
  "negative (Num i) = (i < 0)"
| "negative NegZero = True"
| "negative NegInf = True"
| "negative _ = False"

fun is_zero :: "jsnum \<Rightarrow> bool" where
  "is_zero (Num i) = (i = 0)"
| "is_zero NegZero = True"
| "is_zero _ = False"

fun is_inf :: "jsnum \<Rightarrow> bool" where
  "is_inf PosInf = True"
| "is_inf NegInf = True"
| "is_inf _ = False"

text \<open>The integer of a finite number.\<close>

fun int_of :: "jsnum \<Rightarrow> int" where
  "int_of (Num i) = i"
| "int_of _ = 0"

text \<open>
  \<^verbatim>\<open>a * b\<close>: \<open>NaN\<close> for a \<open>NaN\<close> operand and for zero times infinity; otherwise the sign
  is the product of the signs, also for a zero or an infinity, and the product of two
  non-zero integers is rounded.
\<close>

definition js_mul :: "jsnum \<Rightarrow> jsnum \<Rightarrow> jsnum" where
  "js_mul a b =
     (if a = NaN \<or> b = NaN then NaN
      else if (is_inf a \<and> is_zero b) \<or> (is_zero a \<and> is_inf b) then NaN
      else if is_inf a \<or> is_inf b
        then (if negative a \<noteq> negative b then NegInf else PosInf)
      else if is_zero a \<or> is_zero b
        then (if negative a \<noteq> negative b then NegZero else Num 0)
      else to_number (int_of a * int_of b))"

text \<open>
  \<^verbatim>\<open>a - b\<close>: \<open>NaN\<close> for a \<open>NaN\<close> operand and for the difference of equal infinities; an
  exact difference of zero is \<open>+0\<close>, but \<open>-0 - +0\<close> is \<open>-0\<close>; any other difference is
  rounded.
\<close>

definition js_sub :: "jsnum \<Rightarrow> jsnum \<Rightarrow> jsnum" where
  "js_sub a b =
     (if a = NaN \<or> b = NaN then NaN
      else if is_inf a \<and> is_inf b then (if a = b then NaN else a)
      else if is_inf a then a
      else if is_inf b then (if negative b then PosInf else NegInf)
      else if int_of a - int_of b = 0
        then (if a = NegZero \<and> b = Num 0 then NegZero else Num 0)
      else to_number (int_of a - int_of b))"

text \<open>\<^verbatim>\<open>a < b\<close> is false as soon as one side is \<open>NaN\<close>; the two zeros are equal.\<close>

definition js_less :: "jsnum \<Rightarrow> jsnum \<Rightarrow> bool" where
  "js_less a b \<longleftrightarrow>
     a \<noteq> NaN \<and> b \<noteq> NaN
     \<and> (if a = NegInf then b \<noteq> NegInf
        else if a = PosInf then False
        else if b = NegInf then False
        else if b = PosInf then True
        else int_of a < int_of b)"

text \<open>
  \<^verbatim>\<open>Math.min(a, b)\<close> is \<open>NaN\<close> as soon as one argument is, and takes \<open>-0\<close> for less than
  \<open>+0\<close>.
\<close>

definition js_min :: "jsnum \<Rightarrow> jsnum \<Rightarrow> jsnum" where
  "js_min a b =
     (if a = NaN \<or> b = NaN then NaN
      else if js_less a b then a
      else if js_less b a then b
      else if a = NegZero then a
      else b)"

text \<open>\<^verbatim>\<open>a >= b\<close> is false as soon as one side is \<open>NaN\<close>.\<close>

definition js_ge :: "jsnum \<Rightarrow> jsnum \<Rightarrow> bool" where
  "js_ge a b \<longleftrightarrow> a \<noteq> NaN \<and> b \<noteq> NaN \<and> \<not> js_less a b"

text \<open>A thrown \<^verbatim>\<open>Error\<close>, with its \<^verbatim>\<open>message\<close>.\<close>

datatype js_error = Error (message: string)

subsection \<open>Builtins: \<^verbatim>\<open>parseInt\<close>, number to string, \<^verbatim>\<open>encodeURIComponent\<close>\<close>

text \<open>
  The white space that \<^verbatim>\<open>parseInt\<close> skips, as bytes of UTF-8: the length of the white
  space character at the head of the string (given as byte values), 0 when there is
  none. One byte: TAB, LF, VT, FF, CR, SP. Two bytes: U+00A0. Three bytes: U+1680,
  U+2000 to U+200A, U+2028, U+2029, U+202F, U+205F, U+3000 and U+FEFF.
\<close>

definition is_white_space :: "nat \<Rightarrow> bool" where
  "is_white_space c \<longleftrightarrow> c = 0x09 \<or> c = 0x0A \<or> c = 0x0B \<or> c = 0x0C \<or> c = 0x0D \<or> c = 0x20"

definition is_white_space3 :: "nat \<Rightarrow> nat \<Rightarrow> nat \<Rightarrow> bool" where
  "is_white_space3 c d e \<longleftrightarrow>
     (c = 0xE1 \<and> d = 0x9A \<and> e = 0x80)
     \<or> (c = 0xE2 \<and> d = 0x80 \<and> ((0x80 \<le> e \<and> e \<le> 0x8A) \<or> e = 0xA8 \<or> e = 0xA9 \<or> e = 0xAF))
     \<or> (c = 0xE2 \<and> d = 0x81 \<and> e = 0x9F)
     \<or> (c = 0xE3 \<and> d = 0x80 \<and> e = 0x80)
     \<or> (c = 0xEF \<and> d = 0xBB \<and> e = 0xBF)"

fun white_space_length :: "nat list \<Rightarrow> nat" where
  "white_space_length (c # d # e # _) =
     (if is_white_space c then 1
      else if c = 0xC2 \<and> d = 0xA0 then 2
      else if is_white_space3 c d e then 3
      else 0)"
| "white_space_length [c, d] =
     (if is_white_space c then 1 else if c = 0xC2 \<and> d = 0xA0 then 2 else 0)"
| "white_space_length [c] = (if is_white_space c then 1 else 0)"
| "white_space_length [] = 0"

function trim_start :: "string \<Rightarrow> string" where
  "trim_start s =
     (if white_space_length (map of_char s) = 0 then s
      else trim_start (drop (white_space_length (map of_char s)) s))"
  by pat_completeness auto
termination
proof (relation "measure length")
  show "wf (measure length)" by simp
next
  fix s :: string
  assume ws: "white_space_length (map of_char s) \<noteq> 0"
  then have "s \<noteq> []" by auto
  then show "(drop (white_space_length (map of_char s)) s, s) \<in> measure length"
    using ws by simp
qed

declare trim_start.simps [simp del]

definition digit_val :: "char \<Rightarrow> int option" where
  "digit_val c =
     (let n = (of_char c :: int) in
      if 48 \<le> n \<and> n \<le> 57 then Some (n - 48)
      else if 97 \<le> n \<and> n \<le> 122 then Some (n - 87)
      else if 65 \<le> n \<and> n \<le> 90 then Some (n - 55)
      else None)"

definition is_radix_digit :: "int \<Rightarrow> char \<Rightarrow> bool" where
  "is_radix_digit R c = (case digit_val c of Some d \<Rightarrow> d < R | None \<Rightarrow> False)"

fun digits_value :: "int \<Rightarrow> int \<Rightarrow> string \<Rightarrow> int" where
  "digits_value R acc [] = acc"
| "digits_value R acc (c # cs) = digits_value R (acc * R + (case digit_val c of Some d \<Rightarrow> d | None \<Rightarrow> 0)) cs"

text \<open>
  \<^verbatim>\<open>parseInt(string)\<close> with no radix: leading white space is skipped, one sign is read,
  a \<^verbatim>\<open>0x\<close> prefix selects radix 16, the longest prefix of digits is the value, and no
  digit at all gives \<open>NaN\<close>. The value zero keeps the sign (\<^verbatim>\<open>parseInt("-0")\<close> is \<open>-0\<close>);
  any other value is rounded to a double. The argument is the query value as a string.
\<close>

definition parseInt :: "string \<Rightarrow> jsnum" where
  "parseInt inputString =
     (let S = trim_start inputString;
          sign = (if S \<noteq> [] \<and> hd S = CHR ''-'' then - 1 else (1::int));
          S1 = (if S \<noteq> [] \<and> (hd S = CHR ''+'' \<or> hd S = CHR ''-'') then tl S else S);
          hex = (take 2 S1 = ''0x'' \<or> take 2 S1 = ''0X'');
          R = (if hex then 16 else 10);
          S2 = (if hex then drop 2 S1 else S1);
          Z = takeWhile (is_radix_digit R) S2;
          mathInt = digits_value R 0 Z
      in if Z = [] then NaN
         else if mathInt = 0 then (if sign = - 1 then NegZero else Num 0)
         else to_number (sign * mathInt))"

definition digit_char :: "nat \<Rightarrow> char" where
  "digit_char d = char_of (48 + d)"

fun show_nat :: "nat \<Rightarrow> string" where
  "show_nat n = (if n < 10 then [digit_char n] else show_nat (n div 10) @ [digit_char (n mod 10)])"

definition show_int :: "int \<Rightarrow> string" where
  "show_int i = (if i < 0 then CHR ''-'' # show_nat (nat (- i)) else show_nat (nat i))"

definition uri_unreserved :: "char \<Rightarrow> bool" where
  "uri_unreserved c \<longleftrightarrow>
     (let n = (of_char c :: nat) in
      (48 \<le> n \<and> n \<le> 57) \<or> (65 \<le> n \<and> n \<le> 90) \<or> (97 \<le> n \<and> n \<le> 122)
      \<or> c \<in> set ''-_.!~*'()'')"

definition hex_digit :: "nat \<Rightarrow> char" where
  "hex_digit d = (if d < 10 then char_of (48 + d) else char_of (55 + d))"

definition encodeURIComponent :: "string \<Rightarrow> string" where
  "encodeURIComponent s =
     concat (map (\<lambda>c. if uri_unreserved c then [c]
                      else [CHR ''%'', hex_digit (of_char c div 16), hex_digit (of_char c mod 16)]) s)"

subsection \<open>Constants and the cache\<close>

definition SLICE_HEIGHT :: int where
  "SLICE_HEIGHT = 1500"

definition CACHE_TTL :: int where
  "CACHE_TTL = 5 * 60 * 1000"

record cache_entry =
  buffer :: bytes
  timestamp :: int

text \<open>
  \<^verbatim>\<open>imageCache\<close> is a JavaScript \<^verbatim>\<open>Map\<close>: entries in insertion order, one per key.
  \<^verbatim>\<open>has\<close>/\<^verbatim>\<open>get\<close> are \<^const>\<open>map_of\<close>, \<^verbatim>\<open>set\<close> is \<^const>\<open>AList.update\<close> (the value
  is replaced in place, a new key goes to the end) and \<^verbatim>\<open>delete\<close> is
  \<^const>\<open>AList.delete\<close>. The keys of a cache are distinct.
\<close>

type_synonym image_cache = "(string \<times> cache_entry) list"

text \<open>
  The sweep of \<^verbatim>\<open>setInterval\<close>: the loop runs over the entries and deletes the key of
  each entry that is older than \<^const>\<open>CACHE_TTL\<close>; \<open>now\<close> is \<^verbatim>\<open>Date.now()\<close>.
\<close>

fun sweep_loop :: "int \<Rightarrow> (string \<times> cache_entry) list \<Rightarrow> image_cache \<Rightarrow> image_cache" where
  "sweep_loop now [] imageCache = imageCache"
| "sweep_loop now ((key, v) # entries) imageCache =
     sweep_loop now entries
       (if now - timestamp v > CACHE_TTL then AList.delete key imageCache else imageCache)"

definition sweep :: "int \<Rightarrow> image_cache \<Rightarrow> image_cache" where
  "sweep now imageCache = sweep_loop now imageCache imageCache"

subsection \<open>The libraries\<close>

text \<open>
  The \<^verbatim>\<open>content-length\<close> header as the test
  \<^verbatim>\<open>expectedSize && buffer.length != expectedSize\<close> sees it: absent or empty (falsy),
  a string whose number is a natural number, or any other string (its number is equal
  to no length).
\<close>

datatype content_length = NoLength | LengthInt nat | LengthOther

record fetch_response =
  ok :: bool
  status :: nat
  statusText :: string
  body :: "js_error + bytes"
  content_length_header :: content_length

text \<open>The rectangle given to \<^verbatim>\<open>extract\<close>: left, top, width, height.\<close>

datatype region = Region jsnum jsnum jsnum jsnum

record env =
  fetch :: "string \<Rightarrow> js_error + fetch_response"
  date_now :: int
  sharp_metadata :: "bytes \<Rightarrow> js_error + (nat \<times> nat)"
  sharp_extract_jpeg :: "bytes \<Rightarrow> region \<Rightarrow> nat \<Rightarrow> js_error + bytes"
  RENDER_EXTERNAL_URL :: "string option"
  LOCAL_IP :: string
  PORT :: string

text \<open>
  \<open>fetch\<close> is \<^verbatim>\<open>fetch(url, {headers})\<close> (\<open>Inl\<close> when it throws), \<open>body\<close> of its
  response is \<^verbatim>\<open>response.buffer()\<close>; \<open>sharp_metadata\<close> gives width and height of the
  decoded image; \<open>sharp_extract_jpeg b r q\<close> is
  \<^verbatim>\<open>sharp(b).extract(r).jpeg({quality: q}).toBuffer()\<close>.
\<close>

datatype event =
    LogUsingCached string
  | LogDownloading string
  | FetchCall string
  | WarnContentLength content_length nat
  | MetadataCall bytes
  | LogExtracting jsnum jsnum jsnum
  | ExtractCall bytes region nat
  | LogError js_error

subsection \<open>The manifest\<close>

record slice_info =
  slice_index :: int
  slice_url :: string
  slice_y :: int
  slice_height :: int
  slice_width :: nat

record manifest =
  originalWidth :: nat
  originalHeight :: nat
  sliceHeight :: int
  numSlices :: int
  slices :: "slice_info list"

text \<open>
  \<^verbatim>\<open>Math.ceil(height / SLICE_HEIGHT)\<close>. The slice height is a parameter of the functions
  of the manifest; the handler passes \<^const>\<open>SLICE_HEIGHT\<close>. In \<open>slices_loop\<close>, \<open>n\<close> is
  \<^verbatim>\<open>numSlices\<close> and \<open>out\<close> is the array \<^verbatim>\<open>slices\<close>.
\<close>

definition numSlices_of :: "nat \<Rightarrow> int \<Rightarrow> int" where
  "numSlices_of height sh = \<lceil>real height / real_of_int sh\<rceil>"

definition slice_at :: "int \<Rightarrow> string \<Rightarrow> string \<Rightarrow> nat \<Rightarrow> nat \<Rightarrow> int \<Rightarrow> slice_info" where
  "slice_at sh baseUrl url width height i =
     (let y = i * sh;
          sliceHeight = min sh (int height - y)
      in \<lparr>slice_index = i,
          slice_url = baseUrl @ ''/slice?url='' @ encodeURIComponent url @ ''&index='' @ show_int i,
          slice_y = y,
          slice_height = sliceHeight,
          slice_width = width\<rparr>)"

function slices_loop ::
  "int \<Rightarrow> string \<Rightarrow> string \<Rightarrow> nat \<Rightarrow> nat \<Rightarrow> int \<Rightarrow> int \<Rightarrow> slice_info list \<Rightarrow> slice_info list" where
  "slices_loop sh baseUrl url width height n i out =
     (if i < n
      then slices_loop sh baseUrl url width height n (i + 1)
             (out @ [slice_at sh baseUrl url width height i])
      else out)"
  by pat_completeness auto
termination
  by (relation "measure (\<lambda>(sh, baseUrl, url, width, height, n, i, out). nat (n - i))") auto

declare slices_loop.simps [simp del]

definition base_url :: "env \<Rightarrow> string" where
  "base_url e =
     (case RENDER_EXTERNAL_URL e of
        Some r \<Rightarrow>
          if r \<noteq> [] then (if last r = CHR ''/'' then butlast r else r)
          else ''http://'' @ LOCAL_IP e @ '':'' @ PORT e
      | None \<Rightarrow> ''http://'' @ LOCAL_IP e @ '':'' @ PORT e)"

definition build_manifest :: "int \<Rightarrow> env \<Rightarrow> string \<Rightarrow> nat \<Rightarrow> nat \<Rightarrow> manifest" where
  "build_manifest sh e url width height =
     (let n = numSlices_of height sh
      in \<lparr>originalWidth = width,
          originalHeight = height,
          sliceHeight = sh,
          numSlices = n,
          slices = slices_loop sh (base_url e) url width height n 0 []\<rparr>)"

subsection \<open>The handler of \<^verbatim>\<open>GET /slice\<close>\<close>

text \<open>
  The query of a request: \<^verbatim>\<open>req.query.url\<close> and \<^verbatim>\<open>req.query.index\<close>, \<open>None\<close> for
  \<^verbatim>\<open>undefined\<close>.
\<close>

record request =
  query_url :: "string option"
  query_index :: "string option"

text \<open>
  What the handler sends: \<^verbatim>\<open>res.status(n).json({error: msg})\<close>, the manifest as JSON
  (status 200), or the JPEG bytes of one slice with the headers set before.
\<close>

datatype response =
    JsonError nat string
  | JsonManifest manifest
  | JpegImage "(string \<times> string) list" bytes

record result =
  res :: response
  cache_after :: image_cache
  trace :: "event list"

text \<open>\<^verbatim>\<open>expectedSize && buffer.length != expectedSize\<close>\<close>

definition length_mismatch :: "content_length \<Rightarrow> bytes \<Rightarrow> bool" where
  "length_mismatch expectedSize buf =
     (case expectedSize of
        NoLength \<Rightarrow> False
      | LengthInt n \<Rightarrow> length buf \<noteq> n
      | LengthOther \<Rightarrow> True)"

text \<open>
  Lines 60 to 103: the buffer of \<open>url\<close>, from the cache or from the network. A
  \<^verbatim>\<open>throw\<close> is the result \<open>Inl\<close>; the cache and the trace at that moment are returned
  with it.
\<close>

definition get_buffer ::
  "env \<Rightarrow> image_cache \<Rightarrow> string \<Rightarrow> (js_error + bytes) \<times> image_cache \<times> event list" where
  "get_buffer e imageCache url =
     (case map_of imageCache url of
        Some entry \<Rightarrow> (Inr (buffer entry), imageCache, [LogUsingCached url])
      | None \<Rightarrow>
          (case fetch e url of
             Inl err \<Rightarrow> (Inl err, imageCache, [LogDownloading url, FetchCall url])
           | Inr response \<Rightarrow>
               if \<not> ok response
               then (Inl (Error (''Failed to fetch image: '' @ statusText response
                                  @ '' ('' @ show_nat (status response) @ '')'')),
                     imageCache, [LogDownloading url, FetchCall url])
               else
                 (case body response of
                    Inl err \<Rightarrow> (Inl err, imageCache, [LogDownloading url, FetchCall url])
                  | Inr buf \<Rightarrow>
                      (Inr buf,
                       AList.update url \<lparr>buffer = buf, timestamp = date_now e\<rparr> imageCache,
                       [LogDownloading url, FetchCall url]
                       @ (if length_mismatch (content_length_header response) buf
                          then [WarnContentLength (content_length_header response) (length buf)]
                          else [])))))"

text \<open>Lines 105 to 167: the metadata, then one slice or the manifest.\<close>

definition respond ::
  "env \<Rightarrow> string \<Rightarrow> string option \<Rightarrow> bytes \<Rightarrow> (js_error + response) \<times> event list" where
  "respond e url index buf =
     (case sharp_metadata e buf of
        Inl err \<Rightarrow> (Inl err, [MetadataCall buf])
      | Inr (width, height) \<Rightarrow>
          (case index of
             Some idx \<Rightarrow>
               (let sliceIndex = parseInt idx;
                    y = js_mul sliceIndex (Num SLICE_HEIGHT);
                    sliceHeight = js_min (Num SLICE_HEIGHT) (js_sub (Num (int height)) y)
                in if js_ge y (Num (int height))
                   then (Inr (JsonError 404 ''Slice index out of bounds''), [MetadataCall buf])
                   else
                     (let r = Region (Num 0) y (Num (int width)) sliceHeight;
                          evs = [MetadataCall buf, LogExtracting sliceIndex y sliceHeight,
                                 ExtractCall buf r 90]
                      in case sharp_extract_jpeg e buf r 90 of
                           Inl err \<Rightarrow> (Inl err, evs)
                         | Inr slice' \<Rightarrow>
                             (Inr (JpegImage [(''Content-Type'', ''image/jpeg''),
                                              (''Cache-Control'', ''public, max-age=31536000'')]
                                     slice'),
                              evs)))
           | None \<Rightarrow>
               (Inr (JsonManifest (build_manifest SLICE_HEIGHT e url width height)),
                [MetadataCall buf])))"

text \<open>The whole handler, with its \<^verbatim>\<open>try\<close>/\<^verbatim>\<open>catch\<close>.\<close>

definition slice_handler :: "env \<Rightarrow> image_cache \<Rightarrow> request \<Rightarrow> result" where
  "slice_handler e imageCache req =
     (case query_url req of
        None \<Rightarrow>
          \<lparr>res = JsonError 400 ''Missing url parameter'', cache_after = imageCache, trace = []\<rparr>
      | Some url \<Rightarrow>
          if url = []
          then \<lparr>res = JsonError 400 ''Missing url parameter'', cache_after = imageCache,
                trace = []\<rparr>
          else
            (case get_buffer e imageCache url of
               (Inl err, cache', evs) \<Rightarrow>
                 \<lparr>res = JsonError 500 (message err), cache_after = cache',
                  trace = evs @ [LogError err]\<rparr>
             | (Inr buf, cache', evs) \<Rightarrow>
                 (case respond e url (query_index req) buf of
                    (Inl err, evs') \<Rightarrow>
                      \<lparr>res = JsonError 500 (message err), cache_after = cache',
                       trace = evs @ evs' @ [LogError err]\<rparr>
                  | (Inr r, evs') \<Rightarrow>
                      \<lparr>res = r, cache_after = cache', trace = evs @ evs'\<rparr>)))"

subsection \<open>A small environment for concrete runs\<close>

text \<open>
  A toy image format for the examples: the first byte of a buffer is the width, the
  second byte is the height in hundreds of pixels. The toy codec rejects a rectangle
  that is not made of integers (where \<open>-0\<close> is the integer 0) or is not inside the image,
  and otherwise returns the top offset and the height of the band, in hundreds of pixels,
  as two bytes. The toy network knows the image
  \<^verbatim>\<open>a\<close> (8 wide, 3200 high) and the image \<^verbatim>\<open>t\<close>, whose content length is wrong;
  the request for \<^verbatim>\<open>x\<close> throws, the body of \<^verbatim>\<open>r\<close> cannot be read, and every other
  URL is answered 404.
\<close>

definition toy_metadata :: "bytes \<Rightarrow> js_error + (nat \<times> nat)" where
  "toy_metadata b =
     (case b of
        w # h # _ \<Rightarrow> Inr (unat w, unat h * 100)
      | _ \<Rightarrow> Inl (Error ''Input buffer contains unsupported image format''))"

definition toy_crop :: "bytes \<Rightarrow> int \<Rightarrow> int \<Rightarrow> int \<Rightarrow> int \<Rightarrow> js_error + bytes" where
  "toy_crop b l t w h =
     (case toy_metadata b of
        Inl err \<Rightarrow> Inl err
      | Inr (iw, ih) \<Rightarrow>
          if 0 \<le> l \<and> 0 \<le> t \<and> 0 < w \<and> 0 < h \<and> l + w \<le> int iw \<and> t + h \<le> int ih
          then Inr [of_int (t div 100), of_int (h div 100)]
          else Inl (Error ''extract_area: bad extract area''))"

fun toy_extract :: "bytes \<Rightarrow> region \<Rightarrow> nat \<Rightarrow> js_error + bytes" where
  "toy_extract b (Region (Num l) (Num t) (Num w) (Num h)) q = toy_crop b l t w h"
| "toy_extract b (Region (Num l) NegZero (Num w) (Num h)) q = toy_crop b l 0 w h"
| "toy_extract b _ q = Inl (Error ''Expected integer for top but received NaN of type number'')"

definition toy_fetch :: "string \<Rightarrow> js_error + fetch_response" where
  "toy_fetch url =
     (if url = ''a''
      then Inr \<lparr>ok = True, status = 200, statusText = ''OK'', body = Inr [8, 32],
                content_length_header = LengthInt 2\<rparr>
      else if url = ''t''
      then Inr \<lparr>ok = True, status = 200, statusText = ''OK'', body = Inr [8, 15],
                content_length_header = LengthInt 9\<rparr>
      else if url = ''x''
      then Inl (Error ''request to x failed'')
      else if url = ''r''
      then Inr \<lparr>ok = True, status = 200, statusText = ''OK'',
                body = Inl (Error ''Premature close''), content_length_header = LengthInt 2\<rparr>
      else Inr \<lparr>ok = False, status = 404, statusText = ''Not Found'', body = Inr [],
                content_length_header = NoLength\<rparr>)"

definition toy_env :: "int \<Rightarrow> env" where
  "toy_env now =
     \<lparr>fetch = toy_fetch, date_now = now, sharp_metadata = toy_metadata,
      sharp_extract_jpeg = toy_extract, RENDER_EXTERNAL_URL = None,
      LOCAL_IP = ''10.0.0.2'', PORT = ''3001''\<rparr>"

definition toy_cache :: image_cache where
  "toy_cache = [(''a'', \<lparr>buffer = [8, 32], timestamp = 0\<rparr>),
                (''b'', \<lparr>buffer = [8, 15], timestamp = 800000\<rparr>)]"

text \<open>The rows of the image that a slice of the manifest covers.\<close>

definition band :: "slice_info \<Rightarrow> int set" where
  "band s = {slice_y s ..< slice_y s + slice_height s}"

text \<open>
  What the handler answers once it holds the buffer of the image: the response of lines
  105 to 167, or the 500 of the \<^verbatim>\<open>catch\<close> block when they throw.
\<close>

definition serve :: "env \<Rightarrow> string \<Rightarrow> string option \<Rightarrow> bytes \<Rightarrow> response" where
  "serve e url index buf =
     (case respond e url index buf of
        (Inl err, evs) \<Rightarrow> JsonError 500 (message err)
      | (Inr r, evs) \<Rightarrow> r)"

text \<open>A cache whose only entry was stored at time 0.\<close>

definition stale_cache :: image_cache where
  "stale_cache = [(''a'', \<lparr>buffer = [8, 15], timestamp = 0\<rparr>)]"

section \<open>The sweep\<close>

lemma delete_distinct_filter:
  assumes "distinct (map fst c)" and "(k, v) \<in> set c"
  shows "AList.delete k c = filter (\<lambda>kv. kv \<noteq> (k, v)) c"
proof -
  have "fst kv \<noteq> k \<longleftrightarrow> kv \<noteq> (k, v)" if "kv \<in> set c" for kv
    using assms that by (cases kv) (auto dest: eq_key_imp_eq_value)
  then have "filter (\<lambda>kv. fst kv \<noteq> k) c = filter (\<lambda>kv. kv \<noteq> (k, v)) c"
    by (intro filter_cong) auto
  moreover have "AList.delete k c = filter (\<lambda>kv. fst kv \<noteq> k) c"
    by (induction c) auto
  ultimately show ?thesis by simp
qed

lemma sweep_loop_filter:
  assumes "distinct (map fst c)" and "distinct es" and "set es \<subseteq> set c"
  shows "sweep_loop now es c =
         filter (\<lambda>kv. \<not> (kv \<in> set es \<and> now - timestamp (snd kv) > CACHE_TTL)) c"
  using assms
proof (induction es arbitrary: c)
  case Nil
  then show ?case by simp
next
  case (Cons e es)
  obtain k v where e: "e = (k, v)" by (cases e)
  have notin: "(k, v) \<notin> set es" and des: "distinct es" and kin: "(k, v) \<in> set c"
    and sub: "set es \<subseteq> set c"
    using Cons.prems e by auto
  show ?case
  proof (cases "now - timestamp v > CACHE_TTL")
    case True
    have del: "AList.delete k c = filter (\<lambda>kv. kv \<noteq> (k, v)) c"
      using delete_distinct_filter [OF Cons.prems(1) kin] .
    have d': "distinct (map fst (AList.delete k c))"
      using Cons.prems(1) by (rule distinct_delete)
    have sub': "set es \<subseteq> set (AList.delete k c)"
      using sub notin by (auto simp: del)
    have "sweep_loop now (e # es) c = sweep_loop now es (AList.delete k c)"
      using True e by simp
    also have "\<dots> = filter (\<lambda>kv. \<not> (kv \<in> set es \<and> now - timestamp (snd kv) > CACHE_TTL))
                       (AList.delete k c)"
      using Cons.IH [OF d' des sub'] .
    also have "\<dots> = filter (\<lambda>kv. \<not> (kv \<in> set (e # es) \<and> now - timestamp (snd kv) > CACHE_TTL)) c"
      unfolding del filter_filter using True e
      by (intro filter_cong) auto
    finally show ?thesis .
  next
    case False
    have "sweep_loop now (e # es) c = sweep_loop now es c"
      using False e by simp
    also have "\<dots> = filter (\<lambda>kv. \<not> (kv \<in> set es \<and> now - timestamp (snd kv) > CACHE_TTL)) c"
      using Cons.IH [OF Cons.prems(1) des sub] .
    also have "\<dots> = filter (\<lambda>kv. \<not> (kv \<in> set (e # es) \<and> now - timestamp (snd kv) > CACHE_TTL)) c"
      using False e by (intro filter_cong) auto
    finally show ?thesis .
  qed
qed

lemma sweep_filter:
  assumes "distinct (map fst c)"
  shows "sweep now c = filter (\<lambda>(key, v). \<not> now - timestamp v > CACHE_TTL) c"
proof -
  have "distinct c" using assms by (rule distinct_map [THEN iffD1, THEN conjunct1])
  then have "sweep now c = filter (\<lambda>kv. \<not> (kv \<in> set c \<and> now - timestamp (snd kv) > CACHE_TTL)) c"
    unfolding sweep_def using assms by (intro sweep_loop_filter) auto
  also have "\<dots> = filter (\<lambda>(key, v). \<not> now - timestamp v > CACHE_TTL) c"
    by (intro filter_cong) auto
  finally show ?thesis .
qed

lemma distinct_sweep:
  "distinct (map fst c) \<Longrightarrow> distinct (map fst (sweep now c))"
  by (simp add: sweep_filter distinct_map_filter)

lemma map_of_sweep:
  assumes "distinct (map fst c)"
  shows "map_of (sweep now c) key = Some v \<longleftrightarrow>
         map_of c key = Some v \<and> now - timestamp v \<le> CACHE_TTL"
proof -
  have d: "distinct (map fst (sweep now c))" using assms by (rule distinct_sweep)
  have "map_of (sweep now c) key = Some v \<longleftrightarrow> (key, v) \<in> set (sweep now c)"
    using d by simp
  also have "\<dots> \<longleftrightarrow> (key, v) \<in> set c \<and> now - timestamp v \<le> CACHE_TTL"
    by (auto simp: sweep_filter [OF assms])
  also have "\<dots> \<longleftrightarrow> map_of c key = Some v \<and> now - timestamp v \<le> CACHE_TTL"
    using assms by simp
  finally show ?thesis .
qed

text \<open>
  C7. One sweep at time \<open>now\<close> removes exactly the entries with
  \<open>now - timestamp > CACHE_TTL\<close>: what is left is the cache filtered by the test, so
  every other entry keeps its key, its buffer, its timestamp and its place, and every
  entry left satisfies \<open>now - timestamp \<le> CACHE_TTL\<close>.
\<close>

theorem sweep_removes_exactly_stale:
  assumes "distinct (map fst imageCache)"
  shows "sweep now imageCache = filter (\<lambda>(key, v). \<not> now - timestamp v > CACHE_TTL) imageCache
       \<and> (\<forall>key v. map_of (sweep now imageCache) key = Some v \<longleftrightarrow>
             map_of imageCache key = Some v \<and> now - timestamp v \<le> CACHE_TTL)
       \<and> (\<forall>key. (\<exists>v. map_of imageCache key = Some v \<and> now - timestamp v > CACHE_TTL)
             \<longrightarrow> map_of (sweep now imageCache) key = None)"
proof (intro conjI allI impI)
  show "sweep now imageCache = filter (\<lambda>(key, v). \<not> now - timestamp v > CACHE_TTL) imageCache"
    using assms by (rule sweep_filter)
next
  fix key v
  show "map_of (sweep now imageCache) key = Some v \<longleftrightarrow>
        map_of imageCache key = Some v \<and> now - timestamp v \<le> CACHE_TTL"
    using assms by (rule map_of_sweep)
next
  fix key
  assume "\<exists>v. map_of imageCache key = Some v \<and> now - timestamp v > CACHE_TTL"
  then obtain v where v: "map_of imageCache key = Some v" "now - timestamp v > CACHE_TTL"
    by blast
  show "map_of (sweep now imageCache) key = None"
  proof (cases "map_of (sweep now imageCache) key")
    case None
    then show ?thesis .
  next
    case (Some w)
    then have "map_of imageCache key = Some w \<and> now - timestamp w \<le> CACHE_TTL"
      using map_of_sweep [OF assms] by simp
    with v show ?thesis by simp
  qed
qed

theorem sweep_removes_exactly_stale_witness:
  "distinct (map fst toy_cache)
   \<and> sweep 1000000 toy_cache = [(''b'', \<lparr>buffer = [8, 15], timestamp = 800000\<rparr>)]
   \<and> map_of (sweep 1000000 toy_cache) ''a'' = None"
proof -
  have d: "distinct (map fst toy_cache)" by (simp add: toy_cache_def)
  show ?thesis
    using d sweep_removes_exactly_stale [OF d, of 1000000]
    by (simp add: toy_cache_def CACHE_TTL_def)
qed

section \<open>The slices of the manifest\<close>

lemma numSlices_of_div: "numSlices_of height sh = - ((- int height) div sh)"
proof -
  have "real height = real_of_int (int height)" by simp
  then show ?thesis
    unfolding numSlices_of_def by (simp only: ceiling_divide_eq_div)
qed

lemma numSlices_of_bounds:
  assumes "0 < sh"
  shows "(numSlices_of height sh - 1) * sh < int height" and "int height \<le> numSlices_of height sh * sh"
proof -
  define n where "n = numSlices_of height sh"
  define r where "r = (- int height) mod sh"
  have r: "0 \<le> r" "r < sh" using assms by (simp_all add: r_def)
  have "- int height = (- int height) div sh * sh + r"
    by (simp add: r_def)
  then have h: "int height = n * sh - r"
    by (simp add: n_def numSlices_of_div algebra_simps)
  show "(numSlices_of height sh - 1) * sh < int height"
    using h r by (simp add: n_def [symmetric] algebra_simps)
  show "int height \<le> numSlices_of height sh * sh"
    using h r by (simp add: n_def [symmetric])
qed

lemma numSlices_of_pos:
  assumes "0 < sh" and "0 < height"
  shows "1 \<le> numSlices_of height sh"
proof (rule ccontr)
  assume "\<not> 1 \<le> numSlices_of height sh"
  then have "numSlices_of height sh \<le> 0" by simp
  then have "numSlices_of height sh * sh \<le> 0"
    using assms(1) by (simp add: mult_le_0_iff)
  with numSlices_of_bounds(2) [OF assms(1), of height] assms(2) show False by simp
qed

lemma slices_loop_map:
  "slices_loop sh baseUrl url width height n i out =
   out @ map (slice_at sh baseUrl url width height) [i..n - 1]"
proof (induction sh baseUrl url width height n i out rule: slices_loop.induct)
  case (1 sh baseUrl url width height n i out)
  show ?case
  proof (cases "i < n")
    case True
    then have "[i..n - 1] = i # [i + 1..n - 1]" by (simp add: upto_rec1)
    with True "1.IH" show ?thesis
      by (subst slices_loop.simps) simp
  next
    case False
    then show ?thesis by (subst slices_loop.simps) simp
  qed
qed

lemma slices_build_manifest:
  "slices (build_manifest sh e url width height) =
   map (slice_at sh (base_url e) url width height) [0..numSlices_of height sh - 1]"
  by (simp add: build_manifest_def slices_loop_map Let_def)

lemma sum_full_bands:
  assumes "0 < sh"
  shows "int k * sh \<le> h \<Longrightarrow> sum_list (map (\<lambda>i. min sh (h - i * sh)) [0..int k - 1]) = int k * sh"
proof (induction k)
  case 0
  then show ?case by simp
next
  case (Suc k)
  have le: "int k * sh + sh \<le> h" using Suc.prems by (simp add: algebra_simps)
  then have "int k * sh \<le> h" using assms by simp
  then have IH: "sum_list (map (\<lambda>i. min sh (h - i * sh)) [0..int k - 1]) = int k * sh"
    by (rule Suc.IH)
  have "[0..int (Suc k) - 1] = [0..int k - 1] @ [int k]"
    by (simp add: upto_rec2)
  then show ?case using IH le by (simp add: algebra_simps)
qed

lemma sum_bands:
  assumes "0 < sh" and "0 < height"
  shows "sum_list (map (\<lambda>i. min sh (int height - i * sh)) [0..numSlices_of height sh - 1]) = int height"
proof -
  define n where "n = numSlices_of height sh"
  have n1: "1 \<le> n" unfolding n_def using assms by (rule numSlices_of_pos)
  have lo: "(n - 1) * sh < int height" and hi: "int height \<le> n * sh"
    unfolding n_def using numSlices_of_bounds [OF assms(1)] by simp_all
  define k where "k = nat (n - 1)"
  have k: "int k = n - 1" using n1 by (simp add: k_def)
  have "[0..n - 1] = [0..int k - 1] @ [int k]"
    using n1 k by (simp add: upto_rec2)
  moreover have "sum_list (map (\<lambda>i. min sh (int height - i * sh)) [0..int k - 1]) = int k * sh"
    using lo k by (intro sum_full_bands [OF assms(1)]) simp
  moreover have "min sh (int height - int k * sh) = int height - int k * sh"
  proof -
    have "n = int k + 1" using k by simp
    then have "n * sh = int k * sh + sh" by (simp only: distrib_right mult_1)
    with hi show ?thesis by simp
  qed
  ultimately show ?thesis by (simp add: n_def)
qed


lemma mult_le_less_bound:
  fixes i n sh h :: int
  assumes "0 < sh" and "i \<le> n - 1" and "(n - 1) * sh < h"
  shows "i * sh < h"
proof -
  have "i * sh \<le> (n - 1) * sh"
    using assms(1,2) by (intro mult_right_mono) simp_all
  with assms(3) show ?thesis by simp
qed

text \<open>
  C1. For every height \<open>> 0\<close> and slice height \<open>> 0\<close> the manifest has
  \<open>\<lceil>height / sliceHeight\<rceil>\<close> slices; slice \<open>i\<close> starts at \<open>i * sliceHeight\<close> and is
  \<open>min sliceHeight (height - i * sliceHeight)\<close> high, which is positive; the first slice
  starts at 0, each slice starts where the one before ends, the last one ends at the
  height, the heights sum to the height, and the bands are pairwise disjoint and cover
  \<open>[0, height)\<close>.
\<close>

theorem manifest_slices_partition:
  assumes "0 < height" and "0 < sh"
  shows "let m = build_manifest sh e url width height; ss = slices m in
           numSlices m = \<lceil>real height / real_of_int sh\<rceil>
         \<and> int (length ss) = numSlices m
         \<and> (\<forall>i < length ss.
                slice_index (ss ! i) = int i
              \<and> slice_y (ss ! i) = int i * sh
              \<and> slice_height (ss ! i) = min sh (int height - int i * sh)
              \<and> 0 < slice_height (ss ! i))
         \<and> slice_y (ss ! 0) = 0
         \<and> (\<forall>i. Suc i < length ss \<longrightarrow>
                slice_y (ss ! Suc i) = slice_y (ss ! i) + slice_height (ss ! i))
         \<and> slice_y (last ss) + slice_height (last ss) = int height
         \<and> sum_list (map slice_height ss) = int height
         \<and> (\<forall>i j. i < j \<and> j < length ss \<longrightarrow> band (ss ! i) \<inter> band (ss ! j) = {})
         \<and> (\<Union>s \<in> set ss. band s) = {0 ..< int height}"
proof -
  define n where "n = numSlices_of height sh"
  define f where "f = slice_at sh (base_url e) url width height"
  define ss where "ss = slices (build_manifest sh e url width height)"
  have ss: "ss = map f [0..n - 1]"
    by (simp add: ss_def f_def n_def slices_build_manifest)
  have n1: "1 \<le> n" unfolding n_def using assms(2,1) by (rule numSlices_of_pos)
  have lo: "(n - 1) * sh < int height" and hi: "int height \<le> n * sh"
    unfolding n_def using numSlices_of_bounds [OF assms(2)] by simp_all
  have len: "length ss = nat n" using n1 by (simp add: ss)
  have nth: "ss ! i = f (int i)" if "i < length ss" for i
    using that len by (simp add: ss)
  have fi: "slice_index (f i) = i" "slice_y (f i) = i * sh"
    "slice_height (f i) = min sh (int height - i * sh)" for i
    by (simp_all add: f_def slice_at_def Let_def)
  have below: "int i * sh < int height" if "i < length ss" for i
    using that len by (intro mult_le_less_bound [OF assms(2) _ lo]) simp
  have full: "slice_height (ss ! i) = sh \<and> slice_y (ss ! i) + sh \<le> int height"
    if "Suc i < length ss" for i
  proof -
    have "int (Suc i) * sh < int height" using that by (rule below)
    then have "int i * sh + sh < int height" by (simp add: algebra_simps)
    moreover have "i < length ss" using that by simp
    ultimately show ?thesis by (simp add: nth fi)
  qed
  have c1: "numSlices (build_manifest sh e url width height) = \<lceil>real height / real_of_int sh\<rceil>"
    by (simp add: build_manifest_def numSlices_of_def Let_def)
  have nm: "numSlices (build_manifest sh e url width height) = n"
    by (simp add: build_manifest_def n_def Let_def)
  have c2: "int (length ss) = n" using len n1 by simp
  have c3: "slice_index (ss ! i) = int i \<and> slice_y (ss ! i) = int i * sh
            \<and> slice_height (ss ! i) = min sh (int height - int i * sh)
            \<and> 0 < slice_height (ss ! i)" if "i < length ss" for i
    using below [OF that] assms(2) by (simp add: nth [OF that] fi)
  have pos: "0 < length ss" using len n1 by simp
  have c4: "slice_y (ss ! 0) = 0" using c3 [OF pos] by simp
  have c5: "slice_y (ss ! Suc i) = slice_y (ss ! i) + slice_height (ss ! i)"
    if "Suc i < length ss" for i
  proof -
    have "i < length ss" using that by simp
    then have "slice_y (ss ! i) = int i * sh" using c3 by simp
    moreover have "slice_y (ss ! Suc i) = int (Suc i) * sh" using c3 [OF that] by simp
    ultimately show ?thesis using full [OF that] by (simp add: algebra_simps)
  qed
  have c6: "slice_y (last ss) + slice_height (last ss) = int height"
  proof -
    have ne: "ss \<noteq> []" using pos by simp
    define k where "k = length ss - 1"
    have l: "last ss = ss ! k" unfolding k_def using ne by (rule last_conv_nth)
    have kl: "k < length ss" using pos by (simp add: k_def)
    have ik: "int k = n - 1" using len n1 by (simp add: k_def)
    have "n * sh = (n - 1) * sh + sh" by (simp add: left_diff_distrib)
    with hi have "int height - (n - 1) * sh \<le> sh" by simp
    then show ?thesis by (simp add: l nth [OF kl] fi ik)
  qed
  have c7: "sum_list (map slice_height ss) = int height"
  proof -
    have "map slice_height ss = map (\<lambda>i. min sh (int height - i * sh)) [0..n - 1]"
      by (simp add: ss fi comp_def)
    then show ?thesis using sum_bands [OF assms(2,1)] by (simp add: n_def)
  qed
  have c8: "band (ss ! i) \<inter> band (ss ! j) = {}" if "i < j \<and> j < length ss" for i j
  proof -
    have i: "i < length ss" and j: "j < length ss" using that by simp_all
    have "int i + 1 \<le> int j" using that by simp
    then have "(int i + 1) * sh \<le> int j * sh"
      using assms(2) by (intro mult_right_mono) simp_all
    then have "int i * sh + sh \<le> int j * sh" by (simp add: algebra_simps)
    then show ?thesis
      by (auto simp: band_def nth [OF i] nth [OF j] fi)
  qed
  have c9: "(\<Union>s \<in> set ss. band s) = {0 ..< int height}"
  proof (intro set_eqI iffI)
    fix x
    assume "x \<in> (\<Union>s \<in> set ss. band s)"
    then obtain i where i: "i < length ss" and x: "x \<in> band (ss ! i)"
      by (auto simp: in_set_conv_nth)
    have "0 \<le> int i * sh" using assms(2) by simp
    then show "x \<in> {0 ..< int height}"
      using x by (auto simp: band_def nth [OF i] fi)
  next
    fix x
    assume "x \<in> {0 ..< int height}"
    then have x: "0 \<le> x" "x < int height" by simp_all
    define q where "q = x div sh"
    have q0: "0 \<le> q" using x(1) assms(2) by (simp add: q_def pos_imp_zdiv_nonneg_iff)
    have xq: "x = q * sh + x mod sh" by (simp add: q_def)
    have m0: "0 \<le> x mod sh" and m1: "x mod sh < sh" using assms(2) by simp_all
    have ql: "q * sh \<le> x" using xq m0 by linarith
    have qu: "x < q * sh + sh" using xq m1 by linarith
    have qn: "q < n"
    proof (rule ccontr)
      assume "\<not> q < n"
      then have "n * sh \<le> q * sh" using assms(2) by (intro mult_right_mono) simp_all
      with hi ql x(2) show False by simp
    qed
    define i where "i = nat q"
    have i: "i < length ss" using qn q0 len by (simp add: i_def)
    have iq: "int i = q" using q0 by (simp add: i_def)
    have "x \<in> band (ss ! i)"
      using ql qu x(2) by (simp add: band_def nth [OF i] fi iq)
    moreover have "ss ! i \<in> set ss" using i by simp
    ultimately show "x \<in> (\<Union>s \<in> set ss. band s)" by blast
  qed
  have c2': "int (length ss) = numSlices (build_manifest sh e url width height)"
    using c2 nm by simp
  show ?thesis
    unfolding Let_def ss_def [symmetric]
    using c1 c2' c3 c4 c5 c6 c7 c8 c9 by blast
qed


theorem manifest_slices_partition_witness:
  "(0::nat) < 3200 \<and> (0::int) < 1500
   \<and> numSlices (build_manifest 1500 (toy_env 0) ''a'' 8 3200) = 3
   \<and> map (\<lambda>s. (slice_y s, slice_height s)) (slices (build_manifest 1500 (toy_env 0) ''a'' 8 3200))
       = [(0, 1500), (1500, 1500), (3000, 200)]
   \<and> sum_list (map slice_height (slices (build_manifest 1500 (toy_env 0) ''a'' 8 3200))) = 3200"
proof -
  have h1: "(0::nat) < 3200" and h2: "(0::int) < 1500" by simp_all
  have n: "numSlices (build_manifest 1500 (toy_env 0) ''a'' 8 3200) = 3"
    by (simp add: build_manifest_def numSlices_of_div Let_def)
  have ev: "map (\<lambda>s. (slice_y s, slice_height s)) (slices (build_manifest 1500 (toy_env 0) ''a'' 8 3200))
       = [(0, 1500), (1500, 1500), (3000, 200)]"
    by (simp add: slices_build_manifest numSlices_of_div slice_at_def Let_def upto.simps)
  have "sum_list (map slice_height (slices (build_manifest 1500 (toy_env 0) ''a'' 8 3200))) = int 3200"
    using manifest_slices_partition [OF h1 h2, of "toy_env 0" "''a''" 8]
    unfolding Let_def by (elim conjE)
  with h1 h2 n ev show ?thesis by simp
qed

section \<open>The arithmetic of numbers\<close>

lemma bit_length_upper: "0 \<le> n \<Longrightarrow> n < 2 ^ bit_length n"
proof (induction n rule: bit_length.induct)
  case (1 n)
  show ?case
  proof (cases "n \<le> 0")
    case True
    with "1.prems" show ?thesis by (simp add: bit_length.simps [of n])
  next
    case False
    then have "n div 2 < 2 ^ bit_length (n div 2)"
      using "1.IH" by simp
    then have "n < 2 * 2 ^ bit_length (n div 2)" by linarith
    with False show ?thesis by (simp add: bit_length.simps [of n])
  qed
qed

lemma bit_length_lower: "0 < n \<Longrightarrow> 2 ^ (bit_length n - 1) \<le> n"
proof (induction n rule: bit_length.induct)
  case (1 n)
  have n: "bit_length n = Suc (bit_length (n div 2))"
    using "1.prems" by (simp add: bit_length.simps [of n])
  show ?case
  proof (cases "0 < n div 2")
    case False
    then have "n div 2 \<le> 0" by simp
    then have "bit_length (n div 2) = 0" by (simp add: bit_length.simps [of "n div 2"])
    with "1.prems" n show ?thesis by simp
  next
    case True
    then have IH: "2 ^ (bit_length (n div 2) - 1) \<le> n div 2"
      using "1.IH" "1.prems" by simp
    have "bit_length (n div 2) = Suc (bit_length (n div 2) - 1)"
      using True by (simp add: bit_length.simps [of "n div 2"])
    then have "(2::int) ^ bit_length (n div 2) = 2 * 2 ^ (bit_length (n div 2) - 1)"
      by (metis power_Suc)
    also have "\<dots> \<le> 2 * (n div 2)" using IH by simp
    also have "\<dots> \<le> n" by linarith
    finally show ?thesis by (simp add: n)
  qed
qed

lemma to_number_small: "\<bar>n\<bar> < 2 ^ 53 \<Longrightarrow> to_number n = Num n"
  by (simp add: to_number_def)

lemma round_big:
  fixes m :: int
  assumes m: "2 ^ 53 \<le> m"
  defines "e \<equiv> bit_length m - 53"
  defines "q \<equiv> m div 2 ^ e"
  defines "r \<equiv> m mod 2 ^ e"
  defines "q' \<equiv> (if 2 ^ (e - 1) < r \<or> (r = 2 ^ (e - 1) \<and> odd q) then q + 1 else q)"
  shows "2 ^ 53 \<le> q' * 2 ^ e"
proof -
  have "(0::int) < 2 ^ 53" by simp
  with m have pos: "0 < m" by linarith
  have "m < 2 ^ bit_length m" using pos by (intro bit_length_upper) simp
  with m have "(2::int) ^ 53 < 2 ^ bit_length m" by linarith
  then have bl: "53 < bit_length m"
    by (rule power_less_imp_less_exp [rotated]) simp
  then have e1: "1 \<le> e" and be: "bit_length m - 1 = e + 52" by (simp_all add: e_def)
  have "(2::int) ^ (e + 52) \<le> m" using bit_length_lower [OF pos] be by simp
  then have "(2::int) ^ 52 * 2 ^ e \<le> m" by (simp add: power_add mult.commute)
  then have "(2 ^ 52 * 2 ^ e) div 2 ^ e \<le> m div (2 ^ e :: int)"
    by (intro zdiv_mono1) simp_all
  then have q52: "2 ^ 52 \<le> q"
    unfolding q_def by simp
  have "q \<le> q'" by (simp add: q'_def)
  with q52 have q'52: "2 ^ 52 \<le> q'" by linarith
  have "(2::int) ^ 1 \<le> 2 ^ e" using e1 by (intro power_increasing) simp_all
  then have e2: "(2::int) \<le> 2 ^ e" by simp
  have "(2::int) ^ 53 = 2 ^ 52 * 2" by simp
  also have "\<dots> \<le> q' * 2 ^ e"
    using q'52 e2 by (intro mult_mono) simp_all
  finally show ?thesis .
qed

lemma to_number_big:
  assumes "2 ^ 53 \<le> \<bar>n\<bar>"
  shows "\<exists>v. 2 ^ 53 \<le> v
       \<and> to_number n = (if 2 ^ 1024 \<le> v then (if n < 0 then NegInf else PosInf)
                         else Num (if n < 0 then - v else v))"
proof -
  let ?e = "bit_length \<bar>n\<bar> - 53"
  let ?q = "\<bar>n\<bar> div 2 ^ ?e"
  let ?r = "\<bar>n\<bar> mod 2 ^ ?e"
  let ?v = "(if 2 ^ (?e - 1) < ?r \<or> (?r = 2 ^ (?e - 1) \<and> odd ?q) then ?q + 1 else ?q) * 2 ^ ?e"
  have v: "2 ^ 53 \<le> ?v" using round_big [OF assms] .
  have "\<not> \<bar>n\<bar> < 2 ^ 53" using assms by linarith
  then have "to_number n = (if 2 ^ 1024 \<le> ?v then (if n < 0 then NegInf else PosInf)
                            else Num (if n < 0 then - ?v else ?v))"
    unfolding to_number_def Let_def by (simp only: if_False)
  with v show ?thesis by blast
qed

lemma to_number_big_pos:
  assumes "2 ^ 53 \<le> n"
  shows "to_number n = PosInf \<or> (\<exists>j. to_number n = Num j \<and> 2 ^ 53 \<le> j)"
proof -
  have "(0::int) < 2 ^ 53" by simp
  with assms have pos: "\<not> n < 0" by linarith
  then have "2 ^ 53 \<le> \<bar>n\<bar>" using assms by simp
  from to_number_big [OF this] obtain v where v: "2 ^ 53 \<le> v"
    and t: "to_number n = (if 2 ^ 1024 \<le> v then (if n < 0 then NegInf else PosInf)
                           else Num (if n < 0 then - v else v))"
    by blast
  show ?thesis
  proof (cases "2 ^ 1024 \<le> v")
    case True
    then have "to_number n = PosInf" using t pos by (simp only: if_True if_False)
    then show ?thesis by simp
  next
    case False
    then have "to_number n = Num v" using t pos by (simp only: if_False)
    with v show ?thesis by blast
  qed
qed

lemma to_number_neg:
  assumes "n < 0"
  shows "to_number n = NegInf \<or> (\<exists>j<0. to_number n = Num j)"
proof (cases "\<bar>n\<bar> < 2 ^ 53")
  case True
  then show ?thesis using assms by (simp add: to_number_small)
next
  case False
  then have "2 ^ 53 \<le> \<bar>n\<bar>" by linarith
  from to_number_big [OF this] obtain v where v: "2 ^ 53 \<le> v"
    and t: "to_number n = (if 2 ^ 1024 \<le> v then (if n < 0 then NegInf else PosInf)
                           else Num (if n < 0 then - v else v))"
    by blast
  have "(0::int) < 2 ^ 53" by simp
  with v have vpos: "0 < v" by linarith
  show ?thesis
  proof (cases "2 ^ 1024 \<le> v")
    case True
    then have "to_number n = NegInf" using t assms by (simp only: if_True)
    then show ?thesis by simp
  next
    case False
    then have "to_number n = Num (- v)" using t assms by (simp only: if_True if_False)
    with vpos show ?thesis by auto
  qed
qed

lemma js_ge_Num [simp]: "js_ge (Num a) (Num b) \<longleftrightarrow> b \<le> a"
  by (auto simp: js_ge_def js_less_def)

lemma js_min_Num [simp]: "js_min (Num a) (Num b) = Num (min a b)"
  by (auto simp: js_min_def js_less_def)

lemma js_mul_Num_pos:
  "0 < b \<Longrightarrow> js_mul (Num a) (Num b) = (if a = 0 then Num 0 else to_number (a * b))"
  by (auto simp: js_mul_def)

lemma js_sub_Num: "js_sub (Num a) (Num b) = (if a = b then Num 0 else to_number (a - b))"
  by (auto simp: js_sub_def)

lemma js_mul_exact:
  "0 < b \<Longrightarrow> \<bar>a * b\<bar> < 2 ^ 53 \<Longrightarrow> js_mul (Num a) (Num b) = Num (a * b)"
  by (simp add: js_mul_Num_pos to_number_small)

lemma js_sub_exact:
  "\<bar>a - b\<bar> < 2 ^ 53 \<Longrightarrow> js_sub (Num a) (Num b) = Num (a - b)"
  by (simp add: js_sub_Num to_number_small)

lemma to_number_ge:
  assumes "0 \<le> h" and "h < 2 ^ 53" and "h \<le> x"
  shows "js_ge (to_number x) (Num h)"
proof (cases "x < 2 ^ 53")
  case True
  then have "\<bar>x\<bar> < 2 ^ 53" using assms by simp
  then show ?thesis using assms(3) by (simp add: to_number_small)
next
  case False
  then have "2 ^ 53 \<le> x" by simp
  from to_number_big_pos [OF this] show ?thesis
  proof
    assume "to_number x = PosInf"
    then show ?thesis by (simp add: js_ge_def js_less_def)
  next
    assume "\<exists>j. to_number x = Num j \<and> 2 ^ 53 \<le> j"
    then show ?thesis using assms(2) by auto
  qed
qed

section \<open>The handler on a cached key\<close>

lemma get_buffer_hit:
  "map_of c u = Some entry \<Longrightarrow> get_buffer e c u = (Inr (buffer entry), c, [LogUsingCached u])"
  by (simp add: get_buffer_def)

lemma respond_no_fetch: "FetchCall v \<notin> set (snd (respond e u idx buf))"
  by (auto simp: respond_def Let_def split: sum.splits option.splits prod.splits)

lemma base_url_fetch_clock: "base_url (e\<lparr>fetch := f, date_now := t\<rparr>) = base_url e"
  by (simp add: base_url_def split: option.splits)

lemma build_manifest_fetch_clock:
  "build_manifest sh (e\<lparr>fetch := f, date_now := t\<rparr>) u w h = build_manifest sh e u w h"
  by (simp add: build_manifest_def base_url_fetch_clock)

lemma respond_fetch_clock:
  "respond (e\<lparr>fetch := f, date_now := t\<rparr>) u idx buf = respond e u idx buf"
  by (simp add: respond_def build_manifest_fetch_clock Let_def
      split: sum.splits option.splits prod.splits)

lemma slice_handler_buffer:
  assumes "query_url req = Some u" and "u \<noteq> []" and "get_buffer e c u = (Inr buf, c', evs)"
  shows "res (slice_handler e c req) = serve e u (query_index req) buf"
    and "cache_after (slice_handler e c req) = c'"
    and "trace (slice_handler e c req) =
           evs @ snd (respond e u (query_index req) buf)
           @ (case fst (respond e u (query_index req) buf) of Inl err \<Rightarrow> [LogError err] | Inr r \<Rightarrow> [])"
  using assms
  by (simp_all add: slice_handler_def serve_def split: prod.splits sum.splits)

lemma slice_handler_hit:
  assumes "query_url req = Some u" and "u \<noteq> []" and "map_of c u = Some entry"
  shows "res (slice_handler e c req) = serve e u (query_index req) (buffer entry)"
    and "cache_after (slice_handler e c req) = c"
    and "FetchCall v \<notin> set (trace (slice_handler e c req))"
proof -
  note gb = get_buffer_hit [OF assms(3), of e]
  show "res (slice_handler e c req) = serve e u (query_index req) (buffer entry)"
    using slice_handler_buffer(1) [OF assms(1,2) gb] .
  show "cache_after (slice_handler e c req) = c"
    using slice_handler_buffer(2) [OF assms(1,2) gb] .
  show "FetchCall v \<notin> set (trace (slice_handler e c req))"
    unfolding slice_handler_buffer(3) [OF assms(1,2) gb]
    using respond_no_fetch [of v e u "query_index req" "buffer entry"]
    by (auto split: sum.splits)
qed

text \<open>
  C3. A request for a key whose entry was stored within the last \<open>CACHE_TTL\<close> is
  answered from the stored buffer: the response is the one computed from that buffer, the
  trace holds no call of the fetch, the cache is unchanged, and the response is the same
  whatever the fetch collaborator would have returned. (The handler never reads the
  timestamp, so the proof does not use the hypothesis on the age.)
\<close>

theorem cache_hit_no_fetch:
  assumes "query_url req = Some u" and "u \<noteq> []"
    and "map_of imageCache u = Some entry"
    and "date_now e - timestamp entry \<le> CACHE_TTL"
  shows "res (slice_handler e imageCache req) = serve e u (query_index req) (buffer entry)
       \<and> (\<forall>v. FetchCall v \<notin> set (trace (slice_handler e imageCache req)))
       \<and> cache_after (slice_handler e imageCache req) = imageCache
       \<and> (\<forall>f. res (slice_handler (e\<lparr>fetch := f\<rparr>) imageCache req) = res (slice_handler e imageCache req))"
proof -
  have "res (slice_handler (e\<lparr>fetch := f\<rparr>) imageCache req) = res (slice_handler e imageCache req)" for f
  proof -
    have "respond (e\<lparr>fetch := f\<rparr>) u (query_index req) (buffer entry)
               = respond e u (query_index req) (buffer entry)"
      using respond_fetch_clock [where e = e and f = f and t = "date_now e"] by simp
    then show ?thesis
      by (simp add: slice_handler_hit(1) [OF assms(1,2,3)] serve_def)
  qed
  then show ?thesis
    using slice_handler_hit [OF assms(1,2,3)] by simp
qed

lemmas run_defs =
  slice_handler_def get_buffer_def respond_def serve_def toy_env_def toy_fetch_def
  toy_metadata_def toy_crop_def toy_cache_def stale_cache_def parseInt_def trim_start.simps
  is_white_space_def is_white_space3_def is_radix_digit_def digit_val_def to_number_def
  js_mul_def js_sub_def js_min_def js_less_def js_ge_def length_mismatch_def
  SLICE_HEIGHT_def CACHE_TTL_def Let_def

theorem cache_hit_no_fetch_witness:
  "query_url \<lparr>query_url = Some ''a'', query_index = Some ''2''\<rparr> = Some ''a''
   \<and> ''a'' \<noteq> []
   \<and> map_of toy_cache ''a'' = Some \<lparr>buffer = [8, 32], timestamp = 0\<rparr>
   \<and> date_now (toy_env 1000) - timestamp \<lparr>buffer = [8, 32], timestamp = 0\<rparr> \<le> CACHE_TTL
   \<and> res (slice_handler (toy_env 1000) toy_cache \<lparr>query_url = Some ''a'', query_index = Some ''2''\<rparr>)
       = JpegImage [(''Content-Type'', ''image/jpeg''),
                    (''Cache-Control'', ''public, max-age=31536000'')] [30, 2]
   \<and> FetchCall ''a'' \<notin> set (trace (slice_handler (toy_env 1000) toy_cache
                                      \<lparr>query_url = Some ''a'', query_index = Some ''2''\<rparr>))"
proof -
  let ?req = "\<lparr>query_url = Some ''a'', query_index = Some ''2''\<rparr>"
  let ?entry = "\<lparr>buffer = [8, 32], timestamp = 0\<rparr>"
  have h1: "query_url ?req = Some ''a''" by simp
  have h2: "''a'' \<noteq> []" by simp
  have h3: "map_of toy_cache ''a'' = Some ?entry" by (simp add: toy_cache_def)
  have h4: "date_now (toy_env 1000) - timestamp ?entry \<le> CACHE_TTL"
    by (simp add: toy_env_def CACHE_TTL_def)
  have ev: "serve (toy_env 1000) ''a'' (query_index ?req) (buffer ?entry)
            = JpegImage [(''Content-Type'', ''image/jpeg''),
                         (''Cache-Control'', ''public, max-age=31536000'')] [30, 2]"
    by (simp add: run_defs)
  show ?thesis
    using h1 h2 h3 h4 ev cache_hit_no_fetch [OF h1 h2 h3 h4] by simp
qed

section \<open>Stale entries, and two requests on one entry\<close>

lemma get_buffer_miss_fetch:
  "map_of c u = None \<Longrightarrow> FetchCall u \<in> set (snd (snd (get_buffer e c u)))"
  by (simp add: get_buffer_def split: sum.splits)

lemma slice_handler_trace_get_buffer:
  assumes "query_url req = Some u" and "u \<noteq> []"
  shows "set (snd (snd (get_buffer e c u))) \<subseteq> set (trace (slice_handler e c req))"
  using assms by (auto simp: slice_handler_def split: prod.splits sum.splits)

lemma slice_handler_miss_fetch:
  assumes "query_url req = Some u" and "u \<noteq> []" and "map_of c u = None"
  shows "FetchCall u \<in> set (trace (slice_handler e c req))"
  using get_buffer_miss_fetch [OF assms(3), of e]
    slice_handler_trace_get_buffer [OF assms(1,2), of e c] by blast

text \<open>
  An entry stored at time 0 is requested at time 1000000, later than \<open>CACHE_TTL\<close>, before
  any sweep: the handler answers from the stored buffer and does not call the fetch.
\<close>

theorem stale_entry_no_refetch_counterexample:
  "map_of stale_cache ''a'' = Some \<lparr>buffer = [8, 15], timestamp = 0\<rparr>
   \<and> date_now (toy_env 1000000) - timestamp \<lparr>buffer = [8, 15], timestamp = 0\<rparr> > CACHE_TTL
   \<and> slice_handler (toy_env 1000000) stale_cache \<lparr>query_url = Some ''a'', query_index = Some ''0''\<rparr>
       = \<lparr>res = JpegImage [(''Content-Type'', ''image/jpeg''),
                            (''Cache-Control'', ''public, max-age=31536000'')] [0, 15],
          cache_after = stale_cache,
          trace = [LogUsingCached ''a'', MetadataCall [8, 15],
                   LogExtracting (Num 0) (Num 0) (Num 1500),
                   ExtractCall [8, 15] (Region (Num 0) (Num 0) (Num 8) (Num 1500)) 90]\<rparr>
   \<and> FetchCall ''a'' \<notin> set (trace (slice_handler (toy_env 1000000) stale_cache
                                      \<lparr>query_url = Some ''a'', query_index = Some ''0''\<rparr>))"
  by (simp add: run_defs)

text \<open>
  C2, amended. A key whose entry is older than \<open>CACHE_TTL\<close> and still in the cache is
  answered from the stale buffer and the fetch is not invoked; the entry is fetched again
  only after a sweep has removed it: the sweep at that time removes the entry, and the
  request that follows invokes the fetch.
\<close>

theorem stale_entry_served_until_swept:
  assumes "query_url req = Some u" and "u \<noteq> []"
    and "distinct (map fst imageCache)"
    and "map_of imageCache u = Some entry"
    and "date_now e - timestamp entry > CACHE_TTL"
  shows "res (slice_handler e imageCache req) = serve e u (query_index req) (buffer entry)
       \<and> (\<forall>v. FetchCall v \<notin> set (trace (slice_handler e imageCache req)))
       \<and> cache_after (slice_handler e imageCache req) = imageCache
       \<and> map_of (sweep (date_now e) imageCache) u = None
       \<and> FetchCall u \<in> set (trace (slice_handler e (sweep (date_now e) imageCache) req))"
proof -
  have gone: "map_of (sweep (date_now e) imageCache) u = None"
  proof (cases "map_of (sweep (date_now e) imageCache) u")
    case None
    then show ?thesis .
  next
    case (Some w)
    then have "map_of imageCache u = Some w \<and> date_now e - timestamp w \<le> CACHE_TTL"
      using map_of_sweep [OF assms(3)] by simp
    with assms(4,5) show ?thesis by simp
  qed
  show ?thesis
    using slice_handler_hit [OF assms(1,2,4)] gone slice_handler_miss_fetch [OF assms(1,2) gone]
    by simp
qed

theorem stale_entry_served_until_swept_witness:
  "query_url \<lparr>query_url = Some ''a'', query_index = Some ''0''\<rparr> = Some ''a''
   \<and> ''a'' \<noteq> []
   \<and> distinct (map fst stale_cache)
   \<and> map_of stale_cache ''a'' = Some \<lparr>buffer = [8, 15], timestamp = 0\<rparr>
   \<and> date_now (toy_env 1000000) - timestamp \<lparr>buffer = [8, 15], timestamp = 0\<rparr> > CACHE_TTL
   \<and> (\<forall>v. FetchCall v \<notin> set (trace (slice_handler (toy_env 1000000) stale_cache
                                        \<lparr>query_url = Some ''a'', query_index = Some ''0''\<rparr>)))
   \<and> sweep 1000000 stale_cache = []
   \<and> FetchCall ''a'' \<in> set (trace (slice_handler (toy_env 1000000) (sweep 1000000 stale_cache)
                                      \<lparr>query_url = Some ''a'', query_index = Some ''0''\<rparr>))"
proof -
  let ?req = "\<lparr>query_url = Some ''a'', query_index = Some ''0''\<rparr>"
  let ?entry = "\<lparr>buffer = [8, 15], timestamp = 0\<rparr>"
  have h1: "query_url ?req = Some ''a''" by simp
  have h2: "''a'' \<noteq> []" by simp
  have h3: "distinct (map fst stale_cache)" by (simp add: stale_cache_def)
  have h4: "map_of stale_cache ''a'' = Some ?entry" by (simp add: stale_cache_def)
  have h5: "date_now (toy_env 1000000) - timestamp ?entry > CACHE_TTL"
    by (simp add: toy_env_def CACHE_TTL_def)
  have now: "date_now (toy_env 1000000) = 1000000" by (simp add: toy_env_def)
  have sw: "sweep 1000000 stale_cache = []"
    by (simp add: sweep_def stale_cache_def CACHE_TTL_def)
  show ?thesis
    using h1 h2 h3 h4 h5 sw stale_entry_served_until_swept [OF h1 h2 h3 h4 h5]
    unfolding now by simp
qed

lemma respond_parseInt:
  assumes "map_option parseInt i2 = map_option parseInt i1"
  shows "respond e u i2 buf = respond e u i1 buf"
proof (cases i1)
  case None
  then show ?thesis using assms by simp
next
  case (Some a)
  then obtain b where "i2 = Some b" and "parseInt b = parseInt a"
    using assms by (cases i2) auto
  then show ?thesis using Some
    by (simp add: respond_def Let_def split: sum.splits prod.splits)
qed

text \<open>
  C8. Two requests for the same key that are answered from the same cache entry get the
  same response: the first is answered from the buffer of the entry and leaves the cache
  as it is, and a second request for the key with the same index (the same number after
  \<^verbatim>\<open>parseInt\<close>, or again no index), at any later time and whatever the network would
  return, has the response of the first. For two manifest requests this is the same
  manifest (\<open>numSlices\<close>, \<open>originalWidth\<close>, \<open>originalHeight\<close> and the slices), for two
  slice requests the same encoded bytes. The codec is a function of the buffer.
\<close>

theorem same_entry_same_response:
  assumes "query_url req = Some u" and "u \<noteq> []"
    and "map_of imageCache u = Some entry"
    and "query_url req2 = Some u"
    and "map_option parseInt (query_index req2) = map_option parseInt (query_index req)"
  shows "res (slice_handler e imageCache req) = serve e u (query_index req) (buffer entry)
       \<and> cache_after (slice_handler e imageCache req) = imageCache
       \<and> res (slice_handler (e\<lparr>fetch := f, date_now := t\<rparr>)
                (cache_after (slice_handler e imageCache req)) req2)
           = res (slice_handler e imageCache req)"
proof -
  have r: "res (slice_handler e imageCache req) = serve e u (query_index req) (buffer entry)"
    using assms(1,2,3) by (rule slice_handler_hit(1))
  have c: "cache_after (slice_handler e imageCache req) = imageCache"
    using assms(1,2,3) by (rule slice_handler_hit(2))
  have "res (slice_handler (e\<lparr>fetch := f, date_now := t\<rparr>) imageCache req2)
        = serve (e\<lparr>fetch := f, date_now := t\<rparr>) u (query_index req2) (buffer entry)"
    using assms(4,2,3) by (rule slice_handler_hit(1))
  also have "\<dots> = serve e u (query_index req) (buffer entry)"
    by (simp add: serve_def respond_fetch_clock respond_parseInt [OF assms(5)])
  also have "\<dots> = res (slice_handler e imageCache req)"
    using r by simp
  finally show ?thesis using r c by simp
qed

theorem same_entry_same_response_witness:
  "query_url \<lparr>query_url = Some ''a'', query_index = Some ''2''\<rparr> = Some ''a''
   \<and> ''a'' \<noteq> []
   \<and> map_of toy_cache ''a'' = Some \<lparr>buffer = [8, 32], timestamp = 0\<rparr>
   \<and> query_url \<lparr>query_url = Some ''a'', query_index = Some ''02''\<rparr> = Some ''a''
   \<and> map_option parseInt (query_index \<lparr>query_url = Some ''a'', query_index = Some ''02''\<rparr>)
       = map_option parseInt (query_index \<lparr>query_url = Some ''a'', query_index = Some ''2''\<rparr>)
   \<and> res (slice_handler (toy_env 1000) toy_cache \<lparr>query_url = Some ''a'', query_index = Some ''2''\<rparr>)
       = JpegImage [(''Content-Type'', ''image/jpeg''),
                    (''Cache-Control'', ''public, max-age=31536000'')] [30, 2]
   \<and> res (slice_handler (toy_env 2000) toy_cache \<lparr>query_url = Some ''a'', query_index = Some ''02''\<rparr>)
       = JpegImage [(''Content-Type'', ''image/jpeg''),
                    (''Cache-Control'', ''public, max-age=31536000'')] [30, 2]
   \<and> query_url \<lparr>query_url = Some ''a'', query_index = None\<rparr> = Some ''a''
   \<and> map_option parseInt (query_index \<lparr>query_url = Some ''a'', query_index = None\<rparr>)
       = map_option parseInt (query_index \<lparr>query_url = Some ''a'', query_index = None\<rparr>)
   \<and> res (slice_handler (toy_env 1000) toy_cache \<lparr>query_url = Some ''a'', query_index = None\<rparr>)
       = JsonManifest (build_manifest SLICE_HEIGHT (toy_env 1000) ''a'' 8 3200)
   \<and> res (slice_handler (toy_env 2000) toy_cache \<lparr>query_url = Some ''a'', query_index = None\<rparr>)
       = JsonManifest (build_manifest SLICE_HEIGHT (toy_env 1000) ''a'' 8 3200)
   \<and> numSlices (build_manifest SLICE_HEIGHT (toy_env 1000) ''a'' 8 3200) = 3
   \<and> originalWidth (build_manifest SLICE_HEIGHT (toy_env 1000) ''a'' 8 3200) = 8
   \<and> originalHeight (build_manifest SLICE_HEIGHT (toy_env 1000) ''a'' 8 3200) = 3200"
proof -
  let ?req = "\<lparr>query_url = Some ''a'', query_index = Some ''2''\<rparr>"
  let ?req2 = "\<lparr>query_url = Some ''a'', query_index = Some ''02''\<rparr>"
  let ?man = "\<lparr>query_url = Some ''a'', query_index = None\<rparr>"
  let ?entry = "\<lparr>buffer = [8, 32], timestamp = 0\<rparr>"
  have h1: "query_url ?req = Some ''a''" by simp
  have h2: "''a'' \<noteq> []" by simp
  have h3: "map_of toy_cache ''a'' = Some ?entry" by (simp add: toy_cache_def)
  have h4: "query_url ?req2 = Some ''a''" by simp
  have p2: "parseInt ''2'' = Num 2" and p02: "parseInt ''02'' = Num 2" by code_simp+
  have h5: "map_option parseInt (query_index ?req2) = map_option parseInt (query_index ?req)"
    by (simp add: p2 p02)
  have m1: "query_url ?man = Some ''a''" by simp
  have m5: "map_option parseInt (query_index ?man) = map_option parseInt (query_index ?man)"
    by simp
  have env: "(toy_env 1000)\<lparr>fetch := toy_fetch, date_now := 2000\<rparr> = toy_env 2000"
    by (simp add: toy_env_def)
  have ev: "serve (toy_env 1000) ''a'' (query_index ?req) (buffer ?entry)
            = JpegImage [(''Content-Type'', ''image/jpeg''),
                         (''Cache-Control'', ''public, max-age=31536000'')] [30, 2]"
    by (simp add: serve_def respond_def p2 toy_env_def toy_metadata_def toy_crop_def SLICE_HEIGHT_def
        js_mul_exact js_sub_exact Let_def)
  have evm: "serve (toy_env 1000) ''a'' (query_index ?man) (buffer ?entry)
             = JsonManifest (build_manifest SLICE_HEIGHT (toy_env 1000) ''a'' 8 3200)"
    by (simp add: serve_def respond_def toy_env_def toy_metadata_def toy_crop_def)
  note th = same_entry_same_response
    [OF h1 h2 h3 h4 h5, where e = "toy_env 1000" and f = toy_fetch and t = 2000, unfolded env]
  note tm = same_entry_same_response
    [OF m1 h2 h3 m1 m5, where e = "toy_env 1000" and f = toy_fetch and t = 2000, unfolded env]
  have a1: "res (slice_handler (toy_env 1000) toy_cache ?req)
            = JpegImage [(''Content-Type'', ''image/jpeg''),
                         (''Cache-Control'', ''public, max-age=31536000'')] [30, 2]"
    using th ev by simp
  have c: "cache_after (slice_handler (toy_env 1000) toy_cache ?req) = toy_cache"
    using th by simp
  have a2: "res (slice_handler (toy_env 2000) toy_cache ?req2)
            = JpegImage [(''Content-Type'', ''image/jpeg''),
                         (''Cache-Control'', ''public, max-age=31536000'')] [30, 2]"
    using th a1 unfolding c by simp
  have b1: "res (slice_handler (toy_env 1000) toy_cache ?man)
            = JsonManifest (build_manifest SLICE_HEIGHT (toy_env 1000) ''a'' 8 3200)"
    using tm evm by simp
  have cm: "cache_after (slice_handler (toy_env 1000) toy_cache ?man) = toy_cache"
    using tm by simp
  have b2: "res (slice_handler (toy_env 2000) toy_cache ?man)
            = JsonManifest (build_manifest SLICE_HEIGHT (toy_env 1000) ''a'' 8 3200)"
    using tm b1 unfolding cm by simp
  have n: "numSlices (build_manifest SLICE_HEIGHT (toy_env 1000) ''a'' 8 3200) = 3"
    and ow: "originalWidth (build_manifest SLICE_HEIGHT (toy_env 1000) ''a'' 8 3200) = 8"
    and oh: "originalHeight (build_manifest SLICE_HEIGHT (toy_env 1000) ''a'' 8 3200) = 3200"
    by (simp_all add: build_manifest_def numSlices_of_div SLICE_HEIGHT_def Let_def)
  show ?thesis
    using h1 h2 h3 h4 h5 a1 a2 m1 m5 b1 b2 n ow oh by blast
qed

section \<open>The handler on a key that is not cached\<close>

lemma get_buffer_miss_ok:
  assumes "map_of c u = None" and "fetch e u = Inr rsp" and "ok rsp" and "body rsp = Inr buf"
  shows "get_buffer e c u =
           (Inr buf, AList.update u \<lparr>buffer = buf, timestamp = date_now e\<rparr> c,
            [LogDownloading u, FetchCall u]
            @ (if length_mismatch (content_length_header rsp) buf
               then [WarnContentLength (content_length_header rsp) (length buf)] else []))"
  using assms by (simp add: get_buffer_def)

lemma serve_fetch: "serve (e\<lparr>fetch := f\<rparr>) u idx buf = serve e u idx buf"
  using respond_fetch_clock [where e = e and f = f and t = "date_now e"]
  by (simp add: serve_def)

text \<open>
  C5. When the content length that the network reports differs from the length of the
  buffer received, the download does not fail: the buffer is accepted, the warning is
  written, and the response is the one computed from the buffer, the same as when the
  reported length is right.
\<close>

theorem content_length_mismatch_tolerated:
  assumes "query_url req = Some u" and "u \<noteq> []"
    and "map_of imageCache u = None"
    and "fetch e u = Inr rsp" and "ok rsp" and "body rsp = Inr buf"
    and "length_mismatch (content_length_header rsp) buf"
  shows "fst (get_buffer e imageCache u) = Inr buf
       \<and> WarnContentLength (content_length_header rsp) (length buf)
            \<in> set (trace (slice_handler e imageCache req))
       \<and> res (slice_handler e imageCache req) = serve e u (query_index req) buf
       \<and> res (slice_handler e imageCache req)
           = res (slice_handler
                   (e\<lparr>fetch := (fetch e)(u := Inr (rsp\<lparr>content_length_header := LengthInt (length buf)\<rparr>))\<rparr>)
                   imageCache req)"
proof -
  note gb = get_buffer_miss_ok [OF assms(3,4,5,6)]
  have g1: "fst (get_buffer e imageCache u) = Inr buf" by (simp add: gb)
  have "WarnContentLength (content_length_header rsp) (length buf)
          \<in> set (snd (snd (get_buffer e imageCache u)))"
    using assms(7) by (simp add: gb)
  then have g2: "WarnContentLength (content_length_header rsp) (length buf)
                   \<in> set (trace (slice_handler e imageCache req))"
    using slice_handler_trace_get_buffer [OF assms(1,2), of e imageCache] by blast
  have g3: "res (slice_handler e imageCache req) = serve e u (query_index req) buf"
    using slice_handler_buffer(1) [OF assms(1,2) gb] .
  let ?rsp = "rsp\<lparr>content_length_header := LengthInt (length buf)\<rparr>"
  let ?e = "e\<lparr>fetch := (fetch e)(u := Inr ?rsp)\<rparr>"
  have "fetch ?e u = Inr ?rsp" and "ok ?rsp" and "body ?rsp = Inr buf"
    using assms(5,6) by simp_all
  note gb' = get_buffer_miss_ok [OF assms(3) this]
  have "res (slice_handler ?e imageCache req) = serve ?e u (query_index req) buf"
    using slice_handler_buffer(1) [OF assms(1,2) gb'] .
  then have g4: "res (slice_handler e imageCache req) = res (slice_handler ?e imageCache req)"
    using g3 by (simp add: serve_fetch)
  show ?thesis using g1 g2 g3 g4 by blast
qed

theorem content_length_mismatch_tolerated_witness:
  "query_url \<lparr>query_url = Some ''t'', query_index = Some ''0''\<rparr> = Some ''t''
   \<and> ''t'' \<noteq> []
   \<and> map_of [] ''t'' = (None :: cache_entry option)
   \<and> fetch (toy_env 1000) ''t''
       = Inr \<lparr>ok = True, status = 200, statusText = ''OK'', body = Inr [8, 15],
               content_length_header = LengthInt 9\<rparr>
   \<and> length_mismatch (LengthInt 9) [8, 15]
   \<and> WarnContentLength (LengthInt 9) (length [8, 15 :: 8 word])
        \<in> set (trace (slice_handler (toy_env 1000) [] \<lparr>query_url = Some ''t'', query_index = Some ''0''\<rparr>))
   \<and> res (slice_handler (toy_env 1000) [] \<lparr>query_url = Some ''t'', query_index = Some ''0''\<rparr>)
       = JpegImage [(''Content-Type'', ''image/jpeg''),
                    (''Cache-Control'', ''public, max-age=31536000'')] [0, 15]"
proof -
  let ?req = "\<lparr>query_url = Some ''t'', query_index = Some ''0''\<rparr>"
  let ?rsp = "\<lparr>ok = True, status = 200, statusText = ''OK'', body = Inr [8, 15],
               content_length_header = LengthInt 9\<rparr>"
  have h1: "query_url ?req = Some ''t''" by simp
  have h2: "''t'' \<noteq> []" by simp
  have h3: "map_of [] ''t'' = (None :: cache_entry option)" by simp
  have h4: "fetch (toy_env 1000) ''t'' = Inr ?rsp" by (simp add: toy_env_def toy_fetch_def)
  have h5: "ok ?rsp" by simp
  have h6: "body ?rsp = Inr [8, 15]" by simp
  have h7: "length_mismatch (content_length_header ?rsp) [8, 15]"
    by (simp add: length_mismatch_def)
  have ev: "serve (toy_env 1000) ''t'' (query_index ?req) [8, 15]
            = JpegImage [(''Content-Type'', ''image/jpeg''),
                         (''Cache-Control'', ''public, max-age=31536000'')] [0, 15]"
    by (simp add: run_defs)
  note th = content_length_mismatch_tolerated [OF h1 h2 h3 h4 h5 h6 h7]
  have w: "WarnContentLength (LengthInt 9) (length [8, 15 :: 8 word])
             \<in> set (trace (slice_handler (toy_env 1000) [] ?req))"
    using th by simp
  have r: "res (slice_handler (toy_env 1000) [] ?req) = serve (toy_env 1000) ''t'' (query_index ?req) [8, 15]"
    using th by blast
  show ?thesis using h1 h2 h3 h4 h7 w r ev by simp
qed

lemma slice_handler_throw:
  assumes "query_url req = Some u" and "u \<noteq> []" and "get_buffer e c u = (Inl err, c', evs)"
  shows "res (slice_handler e c req) = JsonError 500 (message err)"
    and "cache_after (slice_handler e c req) = c'"
  using assms by (simp_all add: slice_handler_def)

text \<open>
  C6. When the cache has no entry for the key and the download fails, the handler
  answers 500 with the message of the error as \<^verbatim>\<open>{error: message}\<close> and the cache is
  unchanged. The download fails when the fetch throws, when the status of the response
  is not a success (the message is then \<^verbatim>\<open>Failed to fetch image: statusText (status)\<close>),
  and when reading the body throws.
\<close>

theorem fetch_failure_500_cache_unchanged:
  assumes "query_url req = Some u" and "u \<noteq> []" and "map_of imageCache u = None"
  shows "(\<forall>err. fetch e u = Inl err \<longrightarrow>
            res (slice_handler e imageCache req) = JsonError 500 (message err)
          \<and> cache_after (slice_handler e imageCache req) = imageCache)
       \<and> (\<forall>rsp. fetch e u = Inr rsp \<and> \<not> ok rsp \<longrightarrow>
            res (slice_handler e imageCache req)
              = JsonError 500 (''Failed to fetch image: '' @ statusText rsp
                               @ '' ('' @ show_nat (status rsp) @ '')'')
          \<and> cache_after (slice_handler e imageCache req) = imageCache)
       \<and> (\<forall>rsp err. fetch e u = Inr rsp \<and> ok rsp \<and> body rsp = Inl err \<longrightarrow>
            res (slice_handler e imageCache req) = JsonError 500 (message err)
          \<and> cache_after (slice_handler e imageCache req) = imageCache)"
proof (intro conjI allI impI)
  fix err
  assume "fetch e u = Inl err"
  then have gb: "get_buffer e imageCache u = (Inl err, imageCache, [LogDownloading u, FetchCall u])"
    using assms(3) by (simp add: get_buffer_def)
  show "res (slice_handler e imageCache req) = JsonError 500 (message err)"
    using slice_handler_throw(1) [OF assms(1,2) gb] .
  show "cache_after (slice_handler e imageCache req) = imageCache"
    using slice_handler_throw(2) [OF assms(1,2) gb] .
next
  fix rsp
  assume a: "fetch e u = Inr rsp \<and> \<not> ok rsp"
  let ?err = "Error (''Failed to fetch image: '' @ statusText rsp @ '' ('' @ show_nat (status rsp) @ '')'')"
  have gb: "get_buffer e imageCache u = (Inl ?err, imageCache, [LogDownloading u, FetchCall u])"
    using assms(3) a by (simp add: get_buffer_def)
  show "res (slice_handler e imageCache req)
          = JsonError 500 (''Failed to fetch image: '' @ statusText rsp
                           @ '' ('' @ show_nat (status rsp) @ '')'')"
    using slice_handler_throw(1) [OF assms(1,2) gb] by simp
  show "cache_after (slice_handler e imageCache req) = imageCache"
    using slice_handler_throw(2) [OF assms(1,2) gb] .
next
  fix rsp err
  assume a: "fetch e u = Inr rsp \<and> ok rsp \<and> body rsp = Inl err"
  have gb: "get_buffer e imageCache u = (Inl err, imageCache, [LogDownloading u, FetchCall u])"
    using assms(3) a by (simp add: get_buffer_def)
  show "res (slice_handler e imageCache req) = JsonError 500 (message err)"
    using slice_handler_throw(1) [OF assms(1,2) gb] .
  show "cache_after (slice_handler e imageCache req) = imageCache"
    using slice_handler_throw(2) [OF assms(1,2) gb] .
qed

theorem fetch_failure_500_cache_unchanged_witness:
  "query_url \<lparr>query_url = Some ''x'', query_index = None\<rparr> = Some ''x''
   \<and> ''x'' \<noteq> [] \<and> map_of toy_cache ''x'' = None
   \<and> fetch (toy_env 1000) ''x'' = Inl (Error ''request to x failed'')
   \<and> res (slice_handler (toy_env 1000) toy_cache \<lparr>query_url = Some ''x'', query_index = None\<rparr>)
       = JsonError 500 ''request to x failed''
   \<and> cache_after (slice_handler (toy_env 1000) toy_cache \<lparr>query_url = Some ''x'', query_index = None\<rparr>)
       = toy_cache
   \<and> query_url \<lparr>query_url = Some ''y'', query_index = None\<rparr> = Some ''y''
   \<and> ''y'' \<noteq> [] \<and> map_of toy_cache ''y'' = None
   \<and> fetch (toy_env 1000) ''y''
       = Inr \<lparr>ok = False, status = 404, statusText = ''Not Found'', body = Inr [],
               content_length_header = NoLength\<rparr>
   \<and> res (slice_handler (toy_env 1000) toy_cache \<lparr>query_url = Some ''y'', query_index = None\<rparr>)
       = JsonError 500 ''Failed to fetch image: Not Found (404)''
   \<and> cache_after (slice_handler (toy_env 1000) toy_cache \<lparr>query_url = Some ''y'', query_index = None\<rparr>)
       = toy_cache
   \<and> query_url \<lparr>query_url = Some ''r'', query_index = None\<rparr> = Some ''r''
   \<and> ''r'' \<noteq> [] \<and> map_of toy_cache ''r'' = None
   \<and> fetch (toy_env 1000) ''r''
       = Inr \<lparr>ok = True, status = 200, statusText = ''OK'',
               body = Inl (Error ''Premature close''), content_length_header = LengthInt 2\<rparr>
   \<and> res (slice_handler (toy_env 1000) toy_cache \<lparr>query_url = Some ''r'', query_index = None\<rparr>)
       = JsonError 500 ''Premature close''
   \<and> cache_after (slice_handler (toy_env 1000) toy_cache \<lparr>query_url = Some ''r'', query_index = None\<rparr>)
       = toy_cache"
proof -
  let ?x = "\<lparr>query_url = Some ''x'', query_index = None\<rparr>"
  let ?y = "\<lparr>query_url = Some ''y'', query_index = None\<rparr>"
  let ?r = "\<lparr>query_url = Some ''r'', query_index = None\<rparr>"
  have x1: "query_url ?x = Some ''x''" and x2: "''x'' \<noteq> []"
    and x3: "map_of toy_cache ''x'' = None"
    and x4: "fetch (toy_env 1000) ''x'' = Inl (Error ''request to x failed'')"
    by (simp_all add: toy_cache_def toy_env_def toy_fetch_def)
  have y1: "query_url ?y = Some ''y''" and y2: "''y'' \<noteq> []"
    and y3: "map_of toy_cache ''y'' = None"
    and y4: "fetch (toy_env 1000) ''y''
       = Inr \<lparr>ok = False, status = 404, statusText = ''Not Found'', body = Inr [],
               content_length_header = NoLength\<rparr>"
    by (simp_all add: toy_cache_def toy_env_def toy_fetch_def)
  have r1: "query_url ?r = Some ''r''" and r2: "''r'' \<noteq> []"
    and r3: "map_of toy_cache ''r'' = None"
    and r4: "fetch (toy_env 1000) ''r''
       = Inr \<lparr>ok = True, status = 200, statusText = ''OK'',
               body = Inl (Error ''Premature close''), content_length_header = LengthInt 2\<rparr>"
    by (simp_all add: toy_cache_def toy_env_def toy_fetch_def)
  have sn: "show_nat 404 = ''404''" by code_simp
  have cx: "res (slice_handler (toy_env 1000) toy_cache ?x) = JsonError 500 ''request to x failed''
            \<and> cache_after (slice_handler (toy_env 1000) toy_cache ?x) = toy_cache"
    using fetch_failure_500_cache_unchanged [OF x1 x2 x3, of "toy_env 1000"] x4 by simp
  have cy: "res (slice_handler (toy_env 1000) toy_cache ?y)
              = JsonError 500 ''Failed to fetch image: Not Found (404)''
            \<and> cache_after (slice_handler (toy_env 1000) toy_cache ?y) = toy_cache"
    using fetch_failure_500_cache_unchanged [OF y1 y2 y3, of "toy_env 1000"] y4 sn by simp
  have cr: "res (slice_handler (toy_env 1000) toy_cache ?r) = JsonError 500 ''Premature close''
            \<and> cache_after (slice_handler (toy_env 1000) toy_cache ?r) = toy_cache"
    using fetch_failure_500_cache_unchanged [OF r1 r2 r3, of "toy_env 1000"] r4 by simp
  show ?thesis
    using x1 x2 x3 x4 y1 y2 y3 y4 r1 r2 r3 r4 cx cy cr by blast
qed



lemma slice_handler_distinct:
  assumes "distinct (map fst c)"
  shows "distinct (map fst (cache_after (slice_handler e c req)))"
  using assms
  by (auto simp: slice_handler_def get_buffer_def distinct_update
      split: option.splits sum.splits prod.splits)



section \<open>Requests for one slice\<close>

lemma get_buffer_no_extract: "ExtractCall b r q \<notin> set (snd (snd (get_buffer e c u)))"
  by (auto simp: get_buffer_def split: option.splits sum.splits)

lemma respond_slice:
  assumes "sharp_metadata e buf = Inr (w, h)"
  shows "respond e u (Some idx) buf =
     (let y = js_mul (parseInt idx) (Num SLICE_HEIGHT);
          sliceHeight = js_min (Num SLICE_HEIGHT) (js_sub (Num (int h)) y);
          r = Region (Num 0) y (Num (int w)) sliceHeight;
          evs = [MetadataCall buf, LogExtracting (parseInt idx) y sliceHeight, ExtractCall buf r 90]
      in if js_ge y (Num (int h))
         then (Inr (JsonError 404 ''Slice index out of bounds''), [MetadataCall buf])
         else (case sharp_extract_jpeg e buf r 90 of
                 Inl err \<Rightarrow> (Inl err, evs)
               | Inr s \<Rightarrow>
                   (Inr (JpegImage [(''Content-Type'', ''image/jpeg''),
                                    (''Cache-Control'', ''public, max-age=31536000'')] s),
                    evs)))"
  using assms by (simp add: respond_def Let_def)

lemma slice_handler_slice_404:
  assumes "query_url req = Some u" and "u \<noteq> []" and "query_index req = Some idx"
    and "get_buffer e c u = (Inr buf, c', evs)"
    and "sharp_metadata e buf = Inr (w, h)"
    and "js_ge (js_mul (parseInt idx) (Num SLICE_HEIGHT)) (Num (int h))"
  shows "res (slice_handler e c req) = JsonError 404 ''Slice index out of bounds''"
    and "ExtractCall b r q \<notin> set (trace (slice_handler e c req))"
proof -
  have rs: "respond e u (query_index req) buf
            = (Inr (JsonError 404 ''Slice index out of bounds''), [MetadataCall buf])"
    using assms(6) by (simp add: assms(3) respond_slice [OF assms(5)] Let_def)
  show "res (slice_handler e c req) = JsonError 404 ''Slice index out of bounds''"
    using slice_handler_buffer(1) [OF assms(1,2,4)] rs by (simp add: serve_def)
  have "ExtractCall b r q \<notin> set evs"
    using get_buffer_no_extract [of b r q e c u] assms(4) by simp
  then show "ExtractCall b r q \<notin> set (trace (slice_handler e c req))"
    using slice_handler_buffer(3) [OF assms(1,2,4)] rs by simp
qed

lemma slice_handler_slice_extract:
  assumes "query_url req = Some u" and "u \<noteq> []" and "query_index req = Some idx"
    and "get_buffer e c u = (Inr buf, c', evs)"
    and "sharp_metadata e buf = Inr (w, h)"
    and "\<not> js_ge (js_mul (parseInt idx) (Num SLICE_HEIGHT)) (Num (int h))"
    and "r = Region (Num 0) (js_mul (parseInt idx) (Num SLICE_HEIGHT)) (Num (int w))
               (js_min (Num SLICE_HEIGHT)
                  (js_sub (Num (int h)) (js_mul (parseInt idx) (Num SLICE_HEIGHT))))"
  shows "ExtractCall buf r 90 \<in> set (trace (slice_handler e c req))"
    and "sharp_extract_jpeg e buf r 90 = Inr jpeg \<Longrightarrow>
         res (slice_handler e c req)
         = JpegImage [(''Content-Type'', ''image/jpeg''),
                      (''Cache-Control'', ''public, max-age=31536000'')] jpeg"
    and "sharp_extract_jpeg e buf r 90 = Inl err \<Longrightarrow>
         res (slice_handler e c req) = JsonError 500 (message err)"
proof -
  note rs = respond_slice [OF assms(5), of u idx, unfolded Let_def, folded assms(7)]
  show "ExtractCall buf r 90 \<in> set (trace (slice_handler e c req))"
    using slice_handler_buffer(3) [OF assms(1,2,4)] assms(6)
    by (simp add: assms(3) rs split: sum.splits)
  show "res (slice_handler e c req)
         = JpegImage [(''Content-Type'', ''image/jpeg''),
                      (''Cache-Control'', ''public, max-age=31536000'')] jpeg"
    if "sharp_extract_jpeg e buf r 90 = Inr jpeg"
    using slice_handler_buffer(1) [OF assms(1,2,4)] assms(6) that
    by (simp add: assms(3) rs serve_def)
  show "res (slice_handler e c req) = JsonError 500 (message err)"
    if "sharp_extract_jpeg e buf r 90 = Inl err"
    using slice_handler_buffer(1) [OF assms(1,2,4)] assms(6) that
    by (simp add: assms(3) rs serve_def)
qed

text \<open>
  C4. For a request with an index that parses to the integer \<open>i\<close>, on an image of
  height \<open>h\<close>: if \<open>y = i * SLICE_HEIGHT\<close>, as the handler computes it, is \<open>\<ge> h\<close>, the
  handler answers 404 with \<^verbatim>\<open>Slice index out of bounds\<close> and the codec is never asked to
  extract. For a height below \<open>2^53\<close> (an integer that JavaScript holds exactly, as every
  dimension of an image is) this is the case whenever the integer \<open>i * SLICE_HEIGHT\<close> is
  \<open>\<ge> h\<close>; and if \<open>i = numSlices - 1\<close> (and \<open>h > 0\<close>) the handler asks the codec for the
  band at \<open>i * SLICE_HEIGHT\<close> of height \<open>h - (numSlices - 1) * SLICE_HEIGHT\<close>, which lies
  inside the image, and answers with the bytes the codec returns (with 500 if the codec
  throws).
\<close>

theorem slice_index_bounds:
  assumes "query_url req = Some u" and "u \<noteq> []" and "query_index req = Some idx"
    and "get_buffer e imageCache u = (Inr buf, cache', evs)"
    and "sharp_metadata e buf = Inr (w, h)"
    and "parseInt idx = Num i"
  shows "(js_ge (js_mul (Num i) (Num SLICE_HEIGHT)) (Num (int h)) \<longrightarrow>
            res (slice_handler e imageCache req) = JsonError 404 ''Slice index out of bounds''
          \<and> (\<forall>b r q. ExtractCall b r q \<notin> set (trace (slice_handler e imageCache req))))
       \<and> (int h < 2 ^ 53 \<and> int h \<le> i * SLICE_HEIGHT \<longrightarrow>
            res (slice_handler e imageCache req) = JsonError 404 ''Slice index out of bounds''
          \<and> (\<forall>b r q. ExtractCall b r q \<notin> set (trace (slice_handler e imageCache req))))
       \<and> (0 < h \<and> int h < 2 ^ 53 \<and> i = numSlices_of h SLICE_HEIGHT - 1 \<longrightarrow>
            (let bandHeight = int h - (numSlices_of h SLICE_HEIGHT - 1) * SLICE_HEIGHT;
                 r = Region (Num 0) (Num (i * SLICE_HEIGHT)) (Num (int w)) (Num bandHeight)
             in 0 \<le> i * SLICE_HEIGHT \<and> 0 < bandHeight \<and> i * SLICE_HEIGHT + bandHeight = int h
              \<and> ExtractCall buf r 90 \<in> set (trace (slice_handler e imageCache req))
              \<and> (\<forall>jpeg. sharp_extract_jpeg e buf r 90 = Inr jpeg \<longrightarrow>
                    res (slice_handler e imageCache req)
                    = JpegImage [(''Content-Type'', ''image/jpeg''),
                                 (''Cache-Control'', ''public, max-age=31536000'')] jpeg)
              \<and> (\<forall>err. sharp_extract_jpeg e buf r 90 = Inl err \<longrightarrow>
                    res (slice_handler e imageCache req) = JsonError 500 (message err))))"
proof -
  have S: "0 < SLICE_HEIGHT" by (simp add: SLICE_HEIGHT_def)
  have p1: "res (slice_handler e imageCache req) = JsonError 404 ''Slice index out of bounds''
            \<and> (\<forall>b r q. ExtractCall b r q \<notin> set (trace (slice_handler e imageCache req)))"
    if "js_ge (js_mul (Num i) (Num SLICE_HEIGHT)) (Num (int h))"
  proof -
    have ge: "js_ge (js_mul (parseInt idx) (Num SLICE_HEIGHT)) (Num (int h))"
      using that by (simp add: assms(6))
    show ?thesis
      using slice_handler_slice_404 [OF assms(1,2,3,4,5) ge] by blast
  qed
  have p2: "res (slice_handler e imageCache req) = JsonError 404 ''Slice index out of bounds''
            \<and> (\<forall>b r q. ExtractCall b r q \<notin> set (trace (slice_handler e imageCache req)))"
    if b: "int h < 2 ^ 53 \<and> int h \<le> i * SLICE_HEIGHT"
  proof -
    have sm: "int h < 2 ^ 53" and out: "int h \<le> i * SLICE_HEIGHT" using b by simp_all
    have "js_ge (js_mul (Num i) (Num SLICE_HEIGHT)) (Num (int h))"
    proof (cases "i = 0")
      case True
      then show ?thesis using out by (simp add: js_mul_Num_pos [OF S])
    next
      case False
      have "js_ge (to_number (i * SLICE_HEIGHT)) (Num (int h))"
        using _ sm out by (rule to_number_ge) simp
      then show ?thesis using False by (simp add: js_mul_Num_pos [OF S])
    qed
    then show ?thesis by (rule p1)
  qed
  have p3: "let bandHeight = int h - (numSlices_of h SLICE_HEIGHT - 1) * SLICE_HEIGHT;
                r = Region (Num 0) (Num (i * SLICE_HEIGHT)) (Num (int w)) (Num bandHeight)
            in 0 \<le> i * SLICE_HEIGHT \<and> 0 < bandHeight \<and> i * SLICE_HEIGHT + bandHeight = int h
             \<and> ExtractCall buf r 90 \<in> set (trace (slice_handler e imageCache req))
             \<and> (\<forall>jpeg. sharp_extract_jpeg e buf r 90 = Inr jpeg \<longrightarrow>
                   res (slice_handler e imageCache req)
                   = JpegImage [(''Content-Type'', ''image/jpeg''),
                                (''Cache-Control'', ''public, max-age=31536000'')] jpeg)
             \<and> (\<forall>err. sharp_extract_jpeg e buf r 90 = Inl err \<longrightarrow>
                   res (slice_handler e imageCache req) = JsonError 500 (message err))"
    if a: "0 < h \<and> int h < 2 ^ 53 \<and> i = numSlices_of h SLICE_HEIGHT - 1"
  proof -
    define n where "n = numSlices_of h SLICE_HEIGHT"
    define bandHeight where "bandHeight = int h - (n - 1) * SLICE_HEIGHT"
    define r where "r = Region (Num 0) (Num (i * SLICE_HEIGHT)) (Num (int w)) (Num bandHeight)"
    have sm: "int h < 2 ^ 53" using a by simp
    have i: "i = n - 1" using a by (simp add: n_def)
    have n1: "1 \<le> n" unfolding n_def using S a by (intro numSlices_of_pos) simp_all
    have lo: "(n - 1) * SLICE_HEIGHT < int h" and hi: "int h \<le> n * SLICE_HEIGHT"
      unfolding n_def using numSlices_of_bounds [OF S] by simp_all
    have "n * SLICE_HEIGHT = (n - 1) * SLICE_HEIGHT + SLICE_HEIGHT"
      by (simp add: left_diff_distrib)
    with hi have le: "bandHeight \<le> SLICE_HEIGHT" by (simp add: bandHeight_def)
    have b1: "0 \<le> i * SLICE_HEIGHT" using n1 S i by simp
    have b2: "0 < bandHeight" using lo by (simp add: bandHeight_def)
    have b3: "i * SLICE_HEIGHT + bandHeight = int h" by (simp add: bandHeight_def i)
    have lo': "i * SLICE_HEIGHT < int h" using lo i by simp
    then have "i * SLICE_HEIGHT < 2 ^ 53" using sm by linarith
    then have "\<bar>i * SLICE_HEIGHT\<bar> < 2 ^ 53" using b1 by simp
    then have y: "js_mul (Num i) (Num SLICE_HEIGHT) = Num (i * SLICE_HEIGHT)"
      using S by (rule js_mul_exact [rotated])
    have bh: "int h - i * SLICE_HEIGHT = bandHeight" by (simp add: bandHeight_def i)
    have "\<bar>bandHeight\<bar> < 2 ^ 53" using b2 le by (simp add: SLICE_HEIGHT_def)
    then have d: "js_sub (Num (int h)) (Num (i * SLICE_HEIGHT)) = Num bandHeight"
      using js_sub_exact [of "int h" "i * SLICE_HEIGHT"] by (simp only: bh)
    have nge: "\<not> js_ge (js_mul (parseInt idx) (Num SLICE_HEIGHT)) (Num (int h))"
      using lo' by (simp add: assms(6) y)
    have req: "r = Region (Num 0) (js_mul (parseInt idx) (Num SLICE_HEIGHT)) (Num (int w))
                 (js_min (Num SLICE_HEIGHT)
                    (js_sub (Num (int h)) (js_mul (parseInt idx) (Num SLICE_HEIGHT))))"
      using le by (simp add: r_def assms(6) y d)
    note ex = slice_handler_slice_extract [OF assms(1,2,3,4,5) nge req]
    show ?thesis
      unfolding Let_def n_def [symmetric] bandHeight_def [symmetric] r_def [symmetric]
      using b1 b2 b3 ex by blast
  qed
  show ?thesis using p1 p2 p3 by blast
qed

theorem slice_index_bounds_witness:
  "query_url \<lparr>query_url = Some ''a'', query_index = Some [CHR 0xC2, CHR 0xA0, CHR ''3'']\<rparr>
     = Some ''a''
   \<and> ''a'' \<noteq> []
   \<and> query_index \<lparr>query_url = Some ''a'', query_index = Some [CHR 0xC2, CHR 0xA0, CHR ''3'']\<rparr>
       = Some [CHR 0xC2, CHR 0xA0, CHR ''3'']
   \<and> get_buffer (toy_env 1000) toy_cache ''a'' = (Inr [8, 32], toy_cache, [LogUsingCached ''a''])
   \<and> sharp_metadata (toy_env 1000) [8, 32] = Inr (8, 3200) \<and> int 3200 < 2 ^ 53
   \<and> parseInt [CHR 0xC2, CHR 0xA0, CHR ''3''] = Num 3 \<and> int 3200 \<le> 3 * SLICE_HEIGHT
   \<and> js_ge (js_mul (Num 3) (Num SLICE_HEIGHT)) (Num (int 3200))
   \<and> res (slice_handler (toy_env 1000) toy_cache
            \<lparr>query_url = Some ''a'', query_index = Some [CHR 0xC2, CHR 0xA0, CHR ''3'']\<rparr>)
       = JsonError 404 ''Slice index out of bounds''
   \<and> query_index \<lparr>query_url = Some ''a'', query_index = Some ''2''\<rparr> = Some ''2''
   \<and> parseInt ''2'' = Num 2 \<and> (0::nat) < 3200 \<and> 2 = numSlices_of 3200 SLICE_HEIGHT - 1
   \<and> sharp_extract_jpeg (toy_env 1000) [8, 32] (Region (Num 0) (Num 3000) (Num 8) (Num 200)) 90
       = Inr [30, 2]
   \<and> ExtractCall [8, 32] (Region (Num 0) (Num 3000) (Num 8) (Num 200)) 90
       \<in> set (trace (slice_handler (toy_env 1000) toy_cache
                        \<lparr>query_url = Some ''a'', query_index = Some ''2''\<rparr>))
   \<and> res (slice_handler (toy_env 1000) toy_cache \<lparr>query_url = Some ''a'', query_index = Some ''2''\<rparr>)
       = JpegImage [(''Content-Type'', ''image/jpeg''),
                    (''Cache-Control'', ''public, max-age=31536000'')] [30, 2]"
proof -
  let ?r3 = "\<lparr>query_url = Some ''a'', query_index = Some [CHR 0xC2, CHR 0xA0, CHR ''3'']\<rparr>"
  let ?r2 = "\<lparr>query_url = Some ''a'', query_index = Some ''2''\<rparr>"
  have u3: "query_url ?r3 = Some ''a''" and u2: "query_url ?r2 = Some ''a''"
    and ne: "''a'' \<noteq> []"
    and i3: "query_index ?r3 = Some [CHR 0xC2, CHR 0xA0, CHR ''3'']"
    and i2: "query_index ?r2 = Some ''2''"
    by simp_all
  have gb: "get_buffer (toy_env 1000) toy_cache ''a''
            = (Inr [8, 32], toy_cache, [LogUsingCached ''a''])"
    by (simp add: get_buffer_def toy_cache_def)
  have md: "sharp_metadata (toy_env 1000) [8, 32] = Inr (8, 3200)"
    by (simp add: toy_env_def toy_metadata_def toy_crop_def)
  have sm: "int 3200 < 2 ^ 53" by simp
  have p3: "parseInt [CHR 0xC2, CHR 0xA0, CHR ''3''] = Num 3" by code_simp
  have p2: "parseInt ''2'' = Num 2" by code_simp
  have out: "int 3200 \<le> 3 * SLICE_HEIGHT" by (simp add: SLICE_HEIGHT_def)
  have ge: "js_ge (js_mul (Num 3) (Num SLICE_HEIGHT)) (Num (int 3200))"
    by (simp add: SLICE_HEIGHT_def js_mul_exact)
  have n: "numSlices_of 3200 SLICE_HEIGHT = 3"
    by (simp add: numSlices_of_div SLICE_HEIGHT_def)
  have last: "(0::nat) < 3200 \<and> 2 = numSlices_of 3200 SLICE_HEIGHT - 1" by (simp add: n)
  have ex: "sharp_extract_jpeg (toy_env 1000) [8, 32] (Region (Num 0) (Num 3000) (Num 8) (Num 200)) 90
            = Inr [30, 2]"
    by (simp add: toy_env_def toy_metadata_def toy_crop_def)
  have c404: "res (slice_handler (toy_env 1000) toy_cache ?r3)
              = JsonError 404 ''Slice index out of bounds''"
    using slice_index_bounds [OF u3 ne i3 gb md p3] sm out by blast
  have last': "(0::nat) < 3200 \<and> int 3200 < 2 ^ 53 \<and> 2 = numSlices_of 3200 SLICE_HEIGHT - 1"
    using last sm by blast
  note th = slice_index_bounds [OF u2 ne i2 gb md p2, THEN conjunct2, THEN conjunct2,
      rule_format, OF last', unfolded Let_def n]
  have r: "Region (Num 0) (Num (2 * SLICE_HEIGHT)) (Num (int 8)) (Num (int 3200 - (3 - 1) * SLICE_HEIGHT))
           = Region (Num 0) (Num 3000) (Num 8) (Num 200)"
    by (simp add: SLICE_HEIGHT_def)
  have c1: "ExtractCall [8, 32] (Region (Num 0) (Num 3000) (Num 8) (Num 200)) 90
            \<in> set (trace (slice_handler (toy_env 1000) toy_cache ?r2))"
    using th unfolding r by blast
  have c2: "res (slice_handler (toy_env 1000) toy_cache ?r2)
            = JpegImage [(''Content-Type'', ''image/jpeg''),
                         (''Cache-Control'', ''public, max-age=31536000'')] [30, 2]"
    using th ex unfolding r by blast
  show ?thesis
    using u3 ne i3 gb md sm p3 out ge c404 i2 p2 last ex c1 c2 by blast
qed

text \<open>
  C9. For a request whose index does not parse to a non-negative integer (\<^verbatim>\<open>parseInt\<close>
  gives \<open>NaN\<close> or a negative number, minus infinity included), the test
  \<^verbatim>\<open>y >= height\<close> is false, so the answer is not the 404: the handler asks the codec to
  extract at the top offset \<open>y\<close>, which is \<open>NaN\<close> or negative, and when the codec throws
  on it the answer is the 500 of the \<^verbatim>\<open>catch\<close> block with the codec's message.
\<close>

theorem invalid_index_not_404:
  assumes "query_url req = Some u" and "u \<noteq> []" and "query_index req = Some idx"
    and "get_buffer e imageCache u = (Inr buf, cache', evs)"
    and "sharp_metadata e buf = Inr (w, h)"
    and "parseInt idx = NaN \<or> (\<exists>i. parseInt idx = Num i \<and> i < 0) \<or> parseInt idx = NegInf"
  shows "let y = js_mul (parseInt idx) (Num SLICE_HEIGHT);
             sliceHeight = js_min (Num SLICE_HEIGHT) (js_sub (Num (int h)) y);
             r = Region (Num 0) y (Num (int w)) sliceHeight
         in \<not> js_ge y (Num (int h))
          \<and> (y = NaN \<or> (\<exists>t. y = Num t \<and> t < 0) \<or> y = NegInf)
          \<and> (\<forall>msg. res (slice_handler e imageCache req) \<noteq> JsonError 404 msg)
          \<and> ExtractCall buf r 90 \<in> set (trace (slice_handler e imageCache req))
          \<and> (\<forall>err. sharp_extract_jpeg e buf r 90 = Inl err \<longrightarrow>
                res (slice_handler e imageCache req) = JsonError 500 (message err))"
proof -
  define y where "y = js_mul (parseInt idx) (Num SLICE_HEIGHT)"
  define r where "r = Region (Num 0) y (Num (int w))
                        (js_min (Num SLICE_HEIGHT) (js_sub (Num (int h)) y))"
  have S: "0 < SLICE_HEIGHT" by (simp add: SLICE_HEIGHT_def)
  consider "parseInt idx = NaN" | i where "parseInt idx = Num i" "i < 0"
    | "parseInt idx = NegInf"
    using assms(6) by blast
  then have bad: "y = NaN \<or> (\<exists>t. y = Num t \<and> t < 0) \<or> y = NegInf"
  proof cases
    case 1
    then show ?thesis by (simp add: y_def js_mul_def)
  next
    case 2
    then have "i * SLICE_HEIGHT < 0" using S by (simp add: mult_less_0_iff)
    from to_number_neg [OF this] show ?thesis
      using 2 by (auto simp: y_def js_mul_Num_pos [OF S])
  next
    case 3
    then show ?thesis by (simp add: y_def js_mul_def SLICE_HEIGHT_def)
  qed
  have nge: "\<not> js_ge y (Num (int h))"
    using bad by (auto simp: js_ge_def js_less_def)
  note ex = slice_handler_slice_extract
    [OF assms(1,2,3,4,5) nge [unfolded y_def] r_def [unfolded y_def]]
  have n404: "res (slice_handler e imageCache req) \<noteq> JsonError 404 msg" for msg
  proof (cases "sharp_extract_jpeg e buf r 90")
    case (Inl err)
    then show ?thesis using ex(3) by simp
  next
    case (Inr jpeg)
    then show ?thesis using ex(2) by simp
  qed
  show ?thesis
    unfolding Let_def y_def [symmetric] r_def [symmetric]
    using nge bad n404 ex(1,3) by blast
qed

theorem invalid_index_not_404_witness:
  "query_url \<lparr>query_url = Some ''a'', query_index = Some ''zz''\<rparr> = Some ''a''
   \<and> ''a'' \<noteq> []
   \<and> query_index \<lparr>query_url = Some ''a'', query_index = Some ''zz''\<rparr> = Some ''zz''
   \<and> get_buffer (toy_env 1000) toy_cache ''a'' = (Inr [8, 32], toy_cache, [LogUsingCached ''a''])
   \<and> sharp_metadata (toy_env 1000) [8, 32] = Inr (8, 3200)
   \<and> parseInt ''zz'' = NaN
   \<and> sharp_extract_jpeg (toy_env 1000) [8, 32] (Region (Num 0) NaN (Num 8) NaN) 90
       = Inl (Error ''Expected integer for top but received NaN of type number'')
   \<and> ExtractCall [8, 32] (Region (Num 0) NaN (Num 8) NaN) 90
       \<in> set (trace (slice_handler (toy_env 1000) toy_cache
                        \<lparr>query_url = Some ''a'', query_index = Some ''zz''\<rparr>))
   \<and> res (slice_handler (toy_env 1000) toy_cache \<lparr>query_url = Some ''a'', query_index = Some ''zz''\<rparr>)
       = JsonError 500 ''Expected integer for top but received NaN of type number''
   \<and> query_index \<lparr>query_url = Some ''a'', query_index = Some ''-9007199254740991''\<rparr>
       = Some ''-9007199254740991''
   \<and> parseInt ''-9007199254740991'' = Num (- 9007199254740991)
   \<and> sharp_extract_jpeg (toy_env 1000) [8, 32]
        (Region (Num 0) (Num (- 13510798882111485952)) (Num 8) (Num 1500)) 90
       = Inl (Error ''extract_area: bad extract area'')
   \<and> ExtractCall [8, 32] (Region (Num 0) (Num (- 13510798882111485952)) (Num 8) (Num 1500)) 90
       \<in> set (trace (slice_handler (toy_env 1000) toy_cache
                        \<lparr>query_url = Some ''a'', query_index = Some ''-9007199254740991''\<rparr>))
   \<and> res (slice_handler (toy_env 1000) toy_cache
            \<lparr>query_url = Some ''a'', query_index = Some ''-9007199254740991''\<rparr>)
       = JsonError 500 ''extract_area: bad extract area''"
proof -
  let ?rz = "\<lparr>query_url = Some ''a'', query_index = Some ''zz''\<rparr>"
  let ?rm = "\<lparr>query_url = Some ''a'', query_index = Some ''-9007199254740991''\<rparr>"
  have uz: "query_url ?rz = Some ''a''" and um: "query_url ?rm = Some ''a''"
    and ne: "''a'' \<noteq> []"
    and iz: "query_index ?rz = Some ''zz''"
    and im: "query_index ?rm = Some ''-9007199254740991''"
    by simp_all
  have gb: "get_buffer (toy_env 1000) toy_cache ''a''
            = (Inr [8, 32], toy_cache, [LogUsingCached ''a''])"
    by (simp add: get_buffer_def toy_cache_def)
  have md: "sharp_metadata (toy_env 1000) [8, 32] = Inr (8, 3200)"
    by (simp add: toy_env_def toy_metadata_def toy_crop_def)
  have pz: "parseInt ''zz'' = NaN" by code_simp
  have pm: "parseInt ''-9007199254740991'' = Num (- 9007199254740991)" by code_simp
  have hz: "parseInt ''zz'' = NaN \<or> (\<exists>i. parseInt ''zz'' = Num i \<and> i < 0)
            \<or> parseInt ''zz'' = NegInf"
    using pz by simp
  have hm: "parseInt ''-9007199254740991'' = NaN
            \<or> (\<exists>i. parseInt ''-9007199254740991'' = Num i \<and> i < 0)
            \<or> parseInt ''-9007199254740991'' = NegInf"
    using pm by simp
  have ez: "sharp_extract_jpeg (toy_env 1000) [8, 32] (Region (Num 0) NaN (Num 8) NaN) 90
            = Inl (Error ''Expected integer for top but received NaN of type number'')"
    by (simp add: toy_env_def)
  have em: "sharp_extract_jpeg (toy_env 1000) [8, 32]
              (Region (Num 0) (Num (- 13510798882111485952)) (Num 8) (Num 1500)) 90
            = Inl (Error ''extract_area: bad extract area'')"
    by (simp add: toy_env_def toy_metadata_def toy_crop_def)
  note tz = invalid_index_not_404 [OF uz ne iz gb md hz, unfolded Let_def pz]
  note tm = invalid_index_not_404 [OF um ne im gb md hm, unfolded Let_def pm]
  have yz: "js_mul NaN (Num SLICE_HEIGHT) = NaN" by (simp add: js_mul_def)
  have rz: "Region (Num 0) (js_mul NaN (Num SLICE_HEIGHT)) (Num (int 8))
              (js_min (Num SLICE_HEIGHT) (js_sub (Num (int 3200)) (js_mul NaN (Num SLICE_HEIGHT))))
            = Region (Num 0) NaN (Num 8) NaN"
    by (simp add: yz js_sub_def js_min_def)
  have rm: "Region (Num 0) (js_mul (Num (- 9007199254740991)) (Num SLICE_HEIGHT)) (Num (int 8))
              (js_min (Num SLICE_HEIGHT)
                 (js_sub (Num (int 3200)) (js_mul (Num (- 9007199254740991)) (Num SLICE_HEIGHT))))
            = Region (Num 0) (Num (- 13510798882111485952)) (Num 8) (Num 1500)"
    unfolding SLICE_HEIGHT_def by code_simp
  have z1: "ExtractCall [8, 32] (Region (Num 0) NaN (Num 8) NaN) 90
            \<in> set (trace (slice_handler (toy_env 1000) toy_cache ?rz))"
    using tz unfolding rz by blast
  have z2: "res (slice_handler (toy_env 1000) toy_cache ?rz)
            = JsonError 500 ''Expected integer for top but received NaN of type number''"
    using tz ez unfolding rz by (metis js_error.sel)
  have m1: "ExtractCall [8, 32] (Region (Num 0) (Num (- 13510798882111485952)) (Num 8) (Num 1500)) 90
            \<in> set (trace (slice_handler (toy_env 1000) toy_cache ?rm))"
    using tm unfolding rm by blast
  have m2: "res (slice_handler (toy_env 1000) toy_cache ?rm)
            = JsonError 500 ''extract_area: bad extract area''"
    using tm em unfolding rm by (metis js_error.sel)
  show ?thesis
    using uz ne iz gb md pz ez z1 z2 im pm em m1 m2 by blast
qed

end
